theory Spec2Isabelle
  imports Main
begin

section \<open>JavaScript values\<close>

text \<open>
  The values that flow through the session layer: the parsed body of a response
  (\<open>res.json()\<close> has type \<open>any\<close>), the React state \<open>token\<close>, and the fields of a
  request payload (\<open>Record<string, any>\<close>). \<open>JObj\<close> lists the own properties of an
  object in enumeration order, each key once. Numbers are the integer-valued ones
  that a double holds exactly and prints in plain decimal; \<open>representable\<close> below
  says which.
\<close>

datatype jsval =
    JUndefined
  | JNull
  | JBool bool
  | JNum int
  | JStr string
  | JArr "jsval list"
  | JObj "(string \<times> jsval) list"

text \<open>ToBoolean, as used by \<open>Boolean(x)\<close>, \<open>!x\<close>, \<open>if (x)\<close> and \<open>x || y\<close>.\<close>

fun js_truthy :: "jsval \<Rightarrow> bool" where
  "js_truthy JUndefined = False"
| "js_truthy JNull = False"
| "js_truthy (JBool b) = b"
| "js_truthy (JNum n) = (n \<noteq> 0)"
| "js_truthy (JStr s) = (s \<noteq> [])"
| "js_truthy (JArr xs) = True"
| "js_truthy (JObj ps) = True"

text \<open>What a rejected promise or a \<open>throw\<close> carries.\<close>

datatype js_error =
    Error string
  | SyntaxError
  | TypeError


text \<open>
  Reading a property, as in \<open>err.detail\<close> or \<open>const { access_token } = v\<close>:
  \<open>undefined\<close> and \<open>null\<close> have no properties and the read throws; an object
  gives the property or \<open>undefined\<close>; every other value is boxed and has none of the
  names the session layer reads (\<open>detail\<close>, \<open>access_token\<close>).
\<close>

fun js_get :: "jsval \<Rightarrow> string \<Rightarrow> js_error + jsval" where
  "js_get JUndefined k = Inl TypeError"
| "js_get JNull k = Inl TypeError"
| "js_get (JObj ps) k = Inr (case map_of ps k of None \<Rightarrow> JUndefined | Some v \<Rightarrow> v)"
| "js_get v k = Inr JUndefined"

subsection \<open>ToString\<close>

definition digit_char :: "nat \<Rightarrow> char" where
  "digit_char d = char_of (48 + d)"

function nat_digits :: "nat \<Rightarrow> string" where
  "nat_digits n =
     (if n < 10 then [digit_char n] else nat_digits (n div 10) @ [digit_char (n mod 10)])"
  by pat_completeness auto
termination
  by (relation "measure id") auto

declare nat_digits.simps [simp del]

text \<open>
  \<open>Number.prototype.toString\<close> on the integers a double holds exactly: plain
  decimal. From \<open>2^53\<close> on JavaScript rounds, and from \<open>1e21\<close> on it prints an
  exponent; those numbers are outside the model (\<open>representable\<close> below).
\<close>

definition int_to_string :: "int \<Rightarrow> string" where
  "int_to_string i =
     (if i < 0 then CHR ''-'' # nat_digits (nat (- i)) else nat_digits (nat i))"

fun join :: "string \<Rightarrow> string list \<Rightarrow> string" where
  "join sep [] = []"
| "join sep [x] = x"
| "join sep (x # y # ys) = x @ sep @ join sep (y # ys)"

text \<open>Running a list of fallible steps: the first exception wins.\<close>

fun sequence :: "(js_error + 'a) list \<Rightarrow> js_error + 'a list" where
  "sequence [] = Inr []"
| "sequence (Inl e # rs) = Inl e"
| "sequence (Inr x # rs) = (case sequence rs of Inl e \<Rightarrow> Inl e | Inr xs \<Rightarrow> Inr (x # xs))"

text \<open>
  \<open>String(v)\<close>, also what a template literal, \<open>new Error(v)\<close>,
  \<open>localStorage.setItem(k, v)\<close> and \<open>new URLSearchParams(record)\<close> apply to a value.
  An array joins its elements with commas, \<open>null\<close> and \<open>undefined\<close> printing as
  nothing. A parsed object inherits \<open>Object.prototype.toString\<close>, unless it has an
  own property of that name: that one is data, not callable, and the conversion
  throws.
\<close>

fun js_String :: "jsval \<Rightarrow> js_error + string" where
  "js_String JUndefined = Inr ''undefined''"
| "js_String JNull = Inr ''null''"
| "js_String (JBool b) = Inr (if b then ''true'' else ''false'')"
| "js_String (JNum n) = Inr (int_to_string n)"
| "js_String (JStr s) = Inr s"
| "js_String (JArr xs) =
     (case sequence
             (map (\<lambda>x. if x = JUndefined \<or> x = JNull then Inr [] else js_String x) xs) of
        Inl e \<Rightarrow> Inl e
      | Inr ss \<Rightarrow> Inr (join '','' ss))"
| "js_String (JObj ps) =
     (if ''toString'' \<in> set (map fst ps) then Inl TypeError else Inr ''[object Object]'')"

subsection \<open>URLSearchParams.toString\<close>

definition hex_upper :: "nat \<Rightarrow> char" where
  "hex_upper d = (''0123456789ABCDEF'' ! d)"

definition hex_lower :: "nat \<Rightarrow> char" where
  "hex_lower d = (''0123456789abcdef'' ! d)"

text \<open>
  The bytes the application/x-www-form-urlencoded serializer leaves as they are:
  ASCII letters and digits and \<open>* - . _\<close>. Strings are their UTF-8 bytes.
\<close>

definition form_safe :: "char \<Rightarrow> bool" where
  "form_safe c =
     (let n = (of_char c :: nat) in
      (48 \<le> n \<and> n \<le> 57) \<or> (65 \<le> n \<and> n \<le> 90) \<or> (97 \<le> n \<and> n \<le> 122)
      \<or> c = CHR ''*'' \<or> c = CHR ''-'' \<or> c = CHR ''.'' \<or> c = CHR ''_'')"

definition form_encode_byte :: "char \<Rightarrow> string" where
  "form_encode_byte c =
     (if form_safe c then [c]
      else if c = CHR '' '' then ''+''
      else [CHR ''%'', hex_upper (of_char c div 16), hex_upper (of_char c mod 16)])"

definition form_encode :: "string \<Rightarrow> string" where
  "form_encode s = concat (map form_encode_byte s)"

definition form_pair :: "string \<times> jsval \<Rightarrow> js_error + string" where
  "form_pair p =
     (case js_String (snd p) of
        Inl e \<Rightarrow> Inl e
      | Inr v \<Rightarrow> Inr (form_encode (fst p) @ ''='' @ form_encode v))"

text \<open>\<open>new URLSearchParams(body).toString()\<close> for a record \<open>body\<close>.\<close>

definition URLSearchParams_toString :: "(string \<times> jsval) list \<Rightarrow> js_error + string" where
  "URLSearchParams_toString ps =
     (case sequence (map form_pair ps) of
        Inl e \<Rightarrow> Inl e
      | Inr xs \<Rightarrow> Inr (join ''&'' xs))"

subsection \<open>JSON.stringify\<close>

definition json_escape_char :: "char \<Rightarrow> string" where
  "json_escape_char c =
     (let n = (of_char c :: nat) in
      if n = 0x22 then [CHR 0x5C, CHR 0x22]
      else if n = 0x5C then [CHR 0x5C, CHR 0x5C]
      else if n = 8 then [CHR 0x5C, CHR ''b'']
      else if n = 9 then [CHR 0x5C, CHR ''t'']
      else if n = 10 then [CHR 0x5C, CHR ''n'']
      else if n = 12 then [CHR 0x5C, CHR ''f'']
      else if n = 13 then [CHR 0x5C, CHR ''r'']
      else if n < 32 then
        [CHR 0x5C, CHR ''u'', CHR ''0'', CHR ''0'', hex_lower (n div 16), hex_lower (n mod 16)]
      else [c])"

definition json_quote :: "string \<Rightarrow> string" where
  "json_quote s = [CHR 0x22] @ concat (map json_escape_char s) @ [CHR 0x22]"

text \<open>
  A value in element or property position: \<open>undefined\<close> is \<open>null\<close> inside an array
  and drops the property inside an object.
\<close>

fun json_ser :: "jsval \<Rightarrow> string" where
  "json_ser JUndefined = ''null''"
| "json_ser JNull = ''null''"
| "json_ser (JBool b) = (if b then ''true'' else ''false'')"
| "json_ser (JNum n) = int_to_string n"
| "json_ser (JStr s) = json_quote s"
| "json_ser (JArr xs) = ''['' @ join '','' (map json_ser xs) @ '']''"
| "json_ser (JObj ps) =
     ''{'' @ join '',''
              (map (\<lambda>(k, v). json_quote k @ '':'' @ json_ser v)
                 (filter (\<lambda>(k, v). v \<noteq> JUndefined) ps)) @ ''}''"

text \<open>\<open>JSON.stringify(body)\<close> for a record \<open>body\<close>: always a string.\<close>

definition JSON_stringify :: "(string \<times> jsval) list \<Rightarrow> string" where
  "JSON_stringify ps = json_ser (JObj ps)"

section \<open>context/AuthContext.tsx: the context value and useAuth\<close>

text \<open>
  The value handed to \<open>AuthContext.Provider\<close>; \<open>login\<close> and \<open>logout\<close> are the
  functions defined further down and are not stored in the record.
\<close>

record AuthContextType =
  isAuthenticated :: bool
  ctx_token :: jsval

text \<open>
  \<open>useContext(AuthContext)\<close> is the value of the nearest provider, or the default
  \<open>undefined\<close> given to \<open>createContext\<close> when there is none: an option.
\<close>

definition useAuth :: "AuthContextType option \<Rightarrow> js_error + AuthContextType" where
  "useAuth ctx =
     (case ctx of
        None \<Rightarrow> Inl (Error ''useAuth must be used inside AuthProvider'')
      | Some c \<Rightarrow> Inr c)"

section \<open>The network boundary\<close>

text \<open>What \<open>fetch(url, init)\<close> is called with.\<close>

record request =
  req_url :: string
  req_method :: string
  req_headers :: "(string \<times> string) list"
  req_body :: "string option"

text \<open>
  What the code reads of a response: \<open>res.ok\<close>, \<open>await res.text()\<close>, and
  \<open>await res.json()\<close>, which is \<open>None\<close> when the body is not JSON.
\<close>

record response =
  res_ok :: bool
  res_text :: string
  res_json :: "jsval option"

text \<open>The remote API: a rejected \<open>fetch\<close> is \<open>Inl\<close>.\<close>

type_synonym fetch = "request \<Rightarrow> js_error + response"

definition response_json :: "response \<Rightarrow> js_error + jsval" where
  "response_json res = (case res_json res of None \<Rightarrow> Inl SyntaxError | Some v \<Rightarrow> Inr v)"

text \<open>A stubbed API that answers every request with the same response.\<close>

definition stub_fetch :: "response \<Rightarrow> fetch" where
  "stub_fetch res rq = Inr res"

text \<open>\<open>process.env\<close>: the two variables the code reads, \<open>None\<close> when not set.\<close>

record env =
  NEXT_PUBLIC_API_BASE_URL :: "string option"
  NEXT_PUBLIC_API_URL :: "string option"

section \<open>frontend/lib/api.ts\<close>

definition API_BASE :: "env \<Rightarrow> string" where
  "API_BASE e =
     (case NEXT_PUBLIC_API_BASE_URL e of
        None \<Rightarrow> ''http://127.0.0.1:8000''
      | Some u \<Rightarrow> if u \<noteq> [] then u else ''http://127.0.0.1:8000'')"

record options =
  opt_form :: "bool option"
  opt_token :: "string option"

definition form_on :: "options \<Rightarrow> bool" where
  "form_on opts = (opt_form opts = Some True)"

text \<open>
  Lines 15 to 20 (and 73 to 83): the Content-Type follows \<open>options.form\<close>, and a
  non-empty \<open>options.token\<close> adds the Authorization header.
\<close>

definition post_headers :: "options \<Rightarrow> (string \<times> string) list" where
  "post_headers opts =
     [(''Content-Type'',
       if form_on opts then ''application/x-www-form-urlencoded'' else ''application/json'')]
     @ (case opt_token opts of
          None \<Rightarrow> []
        | Some t \<Rightarrow> if t \<noteq> [] then [(''Authorization'', ''Bearer '' @ t)] else [])"

text \<open>
  Lines 22 to 30 (and 85 to 91): the argument of \<open>fetch\<close>. Serializing the form body
  can throw; the async function then rejects before any request is made.
\<close>

definition post_request ::
  "env \<Rightarrow> string \<Rightarrow> (string \<times> jsval) list \<Rightarrow> options \<Rightarrow> js_error + request" where
  "post_request e path payload opts =
     (if form_on opts then
        (case URLSearchParams_toString payload of
           Inl err \<Rightarrow> Inl err
         | Inr b \<Rightarrow>
             Inr \<lparr>req_url = API_BASE e @ path, req_method = ''POST'',
                  req_headers = post_headers opts, req_body = Some b\<rparr>)
      else
        Inr \<lparr>req_url = API_BASE e @ path, req_method = ''POST'',
             req_headers = post_headers opts, req_body = Some (JSON_stringify payload)\<rparr>)"

text \<open>\<open>post\<close> of lines 10 to 34: a response that is not ok throws its text.\<close>

definition post ::
  "fetch \<Rightarrow> env \<Rightarrow> string \<Rightarrow> (string \<times> jsval) list \<Rightarrow> options \<Rightarrow> js_error + jsval" where
  "post fetch e path payload opts =
     (case post_request e path payload opts of
        Inl err \<Rightarrow> Inl err
      | Inr rq \<Rightarrow>
          (case fetch rq of
             Inl err \<Rightarrow> Inl err
           | Inr res \<Rightarrow>
               if \<not> res_ok res then Inl (Error (res_text res)) else response_json res))"

text \<open>\<open>post\<close> of lines 68 to 94, the second copy of the file: no look at \<open>res.ok\<close>.\<close>

definition post2 ::
  "fetch \<Rightarrow> env \<Rightarrow> string \<Rightarrow> (string \<times> jsval) list \<Rightarrow> options \<Rightarrow> js_error + jsval" where
  "post2 fetch e path payload opts =
     (case post_request e path payload opts of
        Inl err \<Rightarrow> Inl err
      | Inr rq \<Rightarrow>
          (case fetch rq of
             Inl err \<Rightarrow> Inl err
           | Inr res \<Rightarrow> response_json res))"

definition get_request :: "env \<Rightarrow> string \<Rightarrow> string option \<Rightarrow> request" where
  "get_request e path tok =
     \<lparr>req_url = API_BASE e @ path, req_method = ''GET'',
      req_headers =
        (case tok of
           None \<Rightarrow> []
         | Some t \<Rightarrow> if t \<noteq> [] then [(''Authorization'', ''Bearer '' @ t)] else []),
      req_body = None\<rparr>"

definition get :: "fetch \<Rightarrow> env \<Rightarrow> string \<Rightarrow> string option \<Rightarrow> js_error + jsval" where
  "get fetch e path tok =
     (case fetch (get_request e path tok) of
        Inl err \<Rightarrow> Inl err
      | Inr res \<Rightarrow>
          if \<not> res_ok res then Inl (Error (res_text res)) else response_json res)"

text \<open>\<open>login\<close> of api.ts, lines 50 to 55.\<close>

definition api_login_data :: "string \<Rightarrow> string \<Rightarrow> (string \<times> jsval) list" where
  "api_login_data username password =
     [(''grant_type'', JStr ''password''), (''username'', JStr username),
      (''password'', JStr password)]"

definition api_login :: "fetch \<Rightarrow> env \<Rightarrow> string \<Rightarrow> string \<Rightarrow> js_error + jsval" where
  "api_login fetch e username password =
     (case post fetch e ''/auth/login'' (api_login_data username password)
             \<lparr>opt_form = Some True, opt_token = None\<rparr> of
        Inl err \<Rightarrow> Inl err
      | Inr v \<Rightarrow> js_get v ''access_token'')"

definition getMe :: "fetch \<Rightarrow> env \<Rightarrow> string \<Rightarrow> js_error + jsval" where
  "getMe fetch e tok = get fetch e ''/users/me'' (Some tok)"

section \<open>context/AuthContext.tsx: AuthProvider\<close>

text \<open>
  What the provider owns and touches: the React state \<open>token\<close>, the browser's
  \<open>localStorage\<close>, and the calls of \<open>router.push\<close> so far, oldest first.
\<close>

record auth_state =
  token :: jsval
  localStorage :: "string \<rightharpoonup> string"
  router_pushes :: "string list"

text \<open>A provider that has just been created: \<open>useState(null)\<close>.\<close>

definition initial_state :: "(string \<rightharpoonup> string) \<Rightarrow> auth_state" where
  "initial_state st = \<lparr>token = JNull, localStorage = st, router_pushes = []\<rparr>"

text \<open>The effect of lines 25 to 28, run once after the first render.\<close>

definition mount_effect :: "auth_state \<Rightarrow> auth_state" where
  "mount_effect s =
     (case localStorage s ''token'' of
        None \<Rightarrow> s
      | Some saved \<Rightarrow> if saved \<noteq> [] then s\<lparr>token := JStr saved\<rparr> else s)"

text \<open>A reload of the page: a new provider over the storage the old one left.\<close>

definition restart :: "auth_state \<Rightarrow> auth_state" where
  "restart s = mount_effect (initial_state (localStorage s))"

text \<open>Lines 31 to 38: the request of \<open>login\<close>.\<close>

definition template :: "string option \<Rightarrow> string" where
  "template v = (case v of None \<Rightarrow> ''undefined'' | Some u \<Rightarrow> u)"

definition login_request :: "env \<Rightarrow> string \<Rightarrow> string \<Rightarrow> request" where
  "login_request e email password =
     \<lparr>req_url = template (NEXT_PUBLIC_API_URL e) @ ''/login'', req_method = ''POST'',
      req_headers = [(''Content-Type'', ''application/json'')],
      req_body = Some (JSON_stringify [(''email'', JStr email), (''password'', JStr password)])\<rparr>"

text \<open>
  Lines 44 to 46: \<open>setItem\<close> stores the string form of the value (and throws when
  there is none), then the state and the router are updated.
\<close>

definition store_token :: "jsval \<Rightarrow> auth_state \<Rightarrow> js_error + auth_state" where
  "store_token t s =
     (case js_String t of
        Inl err \<Rightarrow> Inl err
      | Inr str \<Rightarrow>
          Inr (s\<lparr>localStorage := (localStorage s)(''token'' \<mapsto> str), token := t,
                 router_pushes := router_pushes s @ [''/dashboard'']\<rparr>))"

text \<open>Lines 39 to 42: the error thrown for a response that is not ok.\<close>

definition login_failure :: "response \<Rightarrow> js_error" where
  "login_failure res =
     (case response_json res of
        Inl err \<Rightarrow> err
      | Inr body \<Rightarrow>
          (case js_get body ''detail'' of
             Inl err \<Rightarrow> err
           | Inr d \<Rightarrow>
               (case js_String (if js_truthy d then d else JStr ''Login failed'') of
                  Inl err \<Rightarrow> err
                | Inr msg \<Rightarrow> Error msg)))"

text \<open>
  \<open>login\<close>, lines 30 to 47: the outcome of the promise (\<open>Inl\<close> a rejection) and the
  state it leaves.
\<close>

definition login ::
  "fetch \<Rightarrow> env \<Rightarrow> string \<Rightarrow> string \<Rightarrow> auth_state \<Rightarrow> (js_error + unit) \<times> auth_state" where
  "login fetch e email password s =
     (case fetch (login_request e email password) of
        Inl err \<Rightarrow> (Inl err, s)
      | Inr res \<Rightarrow>
          if \<not> res_ok res then (Inl (login_failure res), s)
          else
            (case response_json res of
               Inl err \<Rightarrow> (Inl err, s)
             | Inr v \<Rightarrow>
                 (case js_get v ''access_token'' of
                    Inl err \<Rightarrow> (Inl err, s)
                  | Inr t \<Rightarrow>
                      (case store_token t s of
                         Inl err \<Rightarrow> (Inl err, s)
                       | Inr s' \<Rightarrow> (Inr (), s')))))"

text \<open>\<open>logout\<close>, lines 49 to 53.\<close>

definition logout :: "auth_state \<Rightarrow> auth_state" where
  "logout s =
     s\<lparr>localStorage := (localStorage s)(''token'' := None), token := JNull,
       router_pushes := router_pushes s @ [''/login'']\<rparr>"

text \<open>Lines 55 to 66: the value the provider renders with.\<close>

definition AuthProvider_value :: "auth_state \<Rightarrow> AuthContextType" where
  "AuthProvider_value s = \<lparr>isAuthenticated = js_truthy (token s), ctx_token = token s\<rparr>"

text \<open>
  The states a provider can be in: created over any storage, then the mount effect,
  logins against any API and logouts, in any order.
\<close>

inductive reachable :: "auth_state \<Rightarrow> bool" where
  created: "reachable (initial_state st)"
| mounted: "reachable s \<Longrightarrow> reachable (mount_effect s)"
| logged_in: "reachable s \<Longrightarrow> reachable (snd (login fetch e email password s))"
| logged_out: "reachable s \<Longrightarrow> reachable (logout s)"

section \<open>The protected views\<close>

text \<open>
  One evaluation of a page component: what it returns (\<open>None\<close> is \<open>return null\<close>,
  otherwise the text of its first element) and the \<open>router.push\<close> calls of its
  effect. A page outside a provider throws in \<open>useAuth\<close> and has neither.
\<close>

record view =
  rendered :: "string option"
  effect_pushes :: "string list"

definition guard_effect :: "jsval \<Rightarrow> string list" where
  "guard_effect tok = (if \<not> js_truthy tok then [''/login''] else [])"

text \<open>\<open>DashboardPage\<close>: the effect redirects, the return does not look at the token.\<close>

definition DashboardPage :: "AuthContextType option \<Rightarrow> js_error + view" where
  "DashboardPage ctx =
     (case useAuth ctx of
        Inl err \<Rightarrow> Inl err
      | Inr c \<Rightarrow>
          Inr \<lparr>rendered = Some ''Welcome to your Dashboard'',
               effect_pushes = guard_effect (ctx_token c)\<rparr>)"

definition DeepDivePage :: "AuthContextType option \<Rightarrow> js_error + view" where
  "DeepDivePage ctx =
     (case useAuth ctx of
        Inl err \<Rightarrow> Inl err
      | Inr c \<Rightarrow>
          Inr \<lparr>rendered = (if \<not> js_truthy (ctx_token c) then None else Some ''Deep Dive''),
               effect_pushes = guard_effect (ctx_token c)\<rparr>)"

definition ConsultPage :: "AuthContextType option \<Rightarrow> js_error + view" where
  "ConsultPage ctx =
     (case useAuth ctx of
        Inl err \<Rightarrow> Inl err
      | Inr c \<Rightarrow>
          Inr \<lparr>rendered =
                 (if \<not> js_truthy (ctx_token c) then None else Some ''Consult AI Agent''),
               effect_pushes = guard_effect (ctx_token c)\<rparr>)"

text \<open>
  The effect of \<open>AdminPage\<close>, lines 20 to 27: the request it sends, if any. The
  template literal can throw as \<open>String\<close> can.
\<close>

definition AdminPage_effect :: "jsval \<Rightarrow> js_error + request option" where
  "AdminPage_effect tok =
     (if \<not> js_truthy tok then Inr None
      else
        (case js_String tok of
           Inl err \<Rightarrow> Inl err
         | Inr t \<Rightarrow>
             Inr (Some \<lparr>req_url = ''http://127.0.0.1:8000/admin/users/pending'',
                        req_method = ''GET'',
                        req_headers = [(''Authorization'', ''Bearer '' @ t)],
                        req_body = None\<rparr>)))"

text \<open>The request of \<open>handleSubmit\<close> in the login page, lines 20 to 24.\<close>

definition LoginPage_request :: "env \<Rightarrow> string \<Rightarrow> string \<Rightarrow> js_error + request" where
  "LoginPage_request e email password =
     post_request e ''/auth/login'' [(''username'', JStr email), (''password'', JStr password)]
       \<lparr>opt_form = Some True, opt_token = None\<rparr>"

section \<open>Vocabulary of the properties\<close>

text \<open>A response whose body is the JSON text of a value.\<close>

definition json_response :: "bool \<Rightarrow> jsval \<Rightarrow> response" where
  "json_response is_ok v = \<lparr>res_ok = is_ok, res_text = json_ser v, res_json = Some v\<rparr>"

text \<open>A string between double quotes, for writing JSON text down.\<close>

definition quoted :: "string \<Rightarrow> string" where
  "quoted s = [CHR 0x22] @ s @ [CHR 0x22]"

text \<open>
  The bytes a form-encoded body is made of: the unreserved ones, \<open>+\<close> for a space,
  \<open>%\<close> before two hex digits, and the separators \<open>=\<close> and \<open>&\<close>.
\<close>

definition form_output_char :: "char \<Rightarrow> bool" where
  "form_output_char c =
     (form_safe c \<or> c = CHR ''+'' \<or> c = CHR ''%'' \<or> c = CHR ''='' \<or> c = CHR ''&'')"

text \<open>A flat payload: every field is a string.\<close>

fun is_JStr :: "jsval \<Rightarrow> bool" where
  "is_JStr (JStr s) = True"
| "is_JStr v = False"

definition flat_payload :: "(string \<times> jsval) list \<Rightarrow> bool" where
  "flat_payload ps = list_all (\<lambda>p. is_JStr (snd p)) ps"

section \<open>Reading the encodings back\<close>

text \<open>The value of a hex digit, either case.\<close>

definition unhex :: "char \<Rightarrow> nat option" where
  "unhex c =
     (let n = (of_char c :: nat) in
      if 48 \<le> n \<and> n \<le> 57 then Some (n - 48)
      else if 65 \<le> n \<and> n \<le> 70 then Some (n - 55)
      else if 97 \<le> n \<and> n \<le> 102 then Some (n - 87)
      else None)"

text \<open>Percent-decoding as the receiving side does it: \<open>+\<close> is a space, \<open>%XY\<close> a byte.\<close>

fun form_decode :: "string \<Rightarrow> string option" where
  "form_decode [] = Some []"
| "form_decode (c # cs) =
     (if c = CHR ''+'' then map_option (Cons CHR '' '') (form_decode cs)
      else if c = CHR ''%'' then
        (case cs of
           h1 # h2 # cs' \<Rightarrow>
             (case (unhex h1, unhex h2) of
                (Some a, Some b) \<Rightarrow> map_option (Cons (char_of (16 * a + b))) (form_decode cs')
              | _ \<Rightarrow> None)
         | _ \<Rightarrow> None)
      else map_option (Cons c) (form_decode cs))"

text \<open>The pieces of a string between occurrences of a separator.\<close>

fun split_on :: "char \<Rightarrow> string \<Rightarrow> string list" where
  "split_on d [] = [[]]"
| "split_on d (c # cs) =
     (if c = d then [] # split_on d cs
      else (case split_on d cs of [] \<Rightarrow> [[c]] | p # ps \<Rightarrow> (c # p) # ps))"

text \<open>One \<open>name=value\<close> piece, decoded.\<close>

definition form_parse_pair :: "string \<Rightarrow> (string \<times> string) option" where
  "form_parse_pair p =
     (case split_on CHR ''='' p of
        [k, v] \<Rightarrow>
          (case (form_decode k, form_decode v) of
             (Some k', Some v') \<Rightarrow> Some (k', v')
           | _ \<Rightarrow> None)
      | _ \<Rightarrow> None)"

text \<open>All of a list of optional results, or none.\<close>

fun all_some :: "'a option list \<Rightarrow> 'a list option" where
  "all_some [] = Some []"
| "all_some (None # rs) = None"
| "all_some (Some x # rs) = map_option (Cons x) (all_some rs)"

text \<open>Reading an application/x-www-form-urlencoded body back into its fields.\<close>

definition form_parse :: "string \<Rightarrow> (string \<times> string) list option" where
  "form_parse s = (if s = [] then Some [] else all_some (map form_parse_pair (split_on CHR ''&'' s)))"

text \<open>A field with its value converted by \<open>String\<close>, as the form encoding sees it.\<close>

definition string_field :: "string \<times> jsval \<Rightarrow> js_error + string \<times> string" where
  "string_field p = (case js_String (snd p) of Inl e \<Rightarrow> Inl e | Inr s \<Rightarrow> Inr (fst p, s))"

definition string_fields :: "(string \<times> jsval) list \<Rightarrow> js_error + (string \<times> string) list" where
  "string_fields ps = sequence (map string_field ps)"

text \<open>The encoded text of one field.\<close>

definition pair_text :: "string \<times> string \<Rightarrow> string" where
  "pair_text kv = form_encode (fst kv) @ ''='' @ form_encode (snd kv)"

text \<open>Reading JSON text back: digits, literals, strings with their escapes, arrays and
  objects. The fuel bounds the nesting and the number of elements read.\<close>

definition is_digit :: "char \<Rightarrow> bool" where
  "is_digit c = (48 \<le> (of_char c :: nat) \<and> (of_char c :: nat) \<le> 57)"

definition digits_val :: "string \<Rightarrow> nat" where
  "digits_val ds = foldl (\<lambda>a c. 10 * a + (of_char c - 48)) 0 ds"

fun strip_prefix :: "string \<Rightarrow> string \<Rightarrow> string option" where
  "strip_prefix [] s = Some s"
| "strip_prefix (p # ps) [] = None"
| "strip_prefix (p # ps) (c # cs) = (if p = c then strip_prefix ps cs else None)"

definition parse_number :: "string \<Rightarrow> (jsval \<times> string) option" where
  "parse_number s =
     (case s of
        [] \<Rightarrow> None
      | c # cs \<Rightarrow>
          if c = CHR ''-'' then
            (if takeWhile is_digit cs = [] then None
             else Some (JNum (- int (digits_val (takeWhile is_digit cs))), dropWhile is_digit cs))
          else if is_digit c then
            Some (JNum (int (digits_val (takeWhile is_digit s))), dropWhile is_digit s)
          else None)"

definition json_unescape :: "char \<Rightarrow> char option" where
  "json_unescape e =
     (if e = CHR 0x22 then Some (CHR 0x22)
      else if e = CHR 0x5C then Some (CHR 0x5C)
      else if e = CHR ''/'' then Some (CHR ''/'')
      else if e = CHR ''b'' then Some (char_of (8 :: nat))
      else if e = CHR ''f'' then Some (char_of (12 :: nat))
      else if e = CHR ''n'' then Some (char_of (10 :: nat))
      else if e = CHR ''r'' then Some (char_of (13 :: nat))
      else if e = CHR ''t'' then Some (char_of (9 :: nat))
      else None)"

definition hex4 :: "char \<Rightarrow> char \<Rightarrow> char \<Rightarrow> char \<Rightarrow> char option" where
  "hex4 h1 h2 h3 h4 =
     (case (unhex h1, unhex h2, unhex h3, unhex h4) of
        (Some a, Some b, Some c, Some d) \<Rightarrow>
          if ((a * 16 + b) * 16 + c) * 16 + d < 256
          then Some (char_of (((a * 16 + b) * 16 + c) * 16 + d)) else None
      | _ \<Rightarrow> None)"

fun parse_chars :: "string \<Rightarrow> (string \<times> string) option" where
  "parse_chars [] = None"
| "parse_chars (c # cs) =
     (if (of_char c :: nat) = 0x22 then Some ([], cs)
      else if (of_char c :: nat) = 0x5C then
        (case cs of
           [] \<Rightarrow> None
         | e # cs1 \<Rightarrow>
             if e = CHR ''u'' then
               (case cs1 of
                  h1 # h2 # h3 # h4 # cs2 \<Rightarrow>
                    (case hex4 h1 h2 h3 h4 of
                       None \<Rightarrow> None
                     | Some ch \<Rightarrow> map_option (apfst (Cons ch)) (parse_chars cs2))
                | _ \<Rightarrow> None)
             else
               (case json_unescape e of
                  None \<Rightarrow> None
                | Some ch \<Rightarrow> map_option (apfst (Cons ch)) (parse_chars cs1)))
      else if (of_char c :: nat) < 32 then None
      else map_option (apfst (Cons c)) (parse_chars cs))"

fun parse_value :: "nat \<Rightarrow> string \<Rightarrow> (jsval \<times> string) option"
  and parse_elems :: "nat \<Rightarrow> string \<Rightarrow> (jsval list \<times> string) option"
  and parse_members :: "nat \<Rightarrow> string \<Rightarrow> ((string \<times> jsval) list \<times> string) option" where
  "parse_value 0 s = None"
| "parse_value (Suc f) s =
     (case parse_number s of
        Some r \<Rightarrow> Some r
      | None \<Rightarrow>
     (case strip_prefix ''null'' s of
        Some r \<Rightarrow> Some (JNull, r)
      | None \<Rightarrow>
     (case strip_prefix ''true'' s of
        Some r \<Rightarrow> Some (JBool True, r)
      | None \<Rightarrow>
     (case strip_prefix ''false'' s of
        Some r \<Rightarrow> Some (JBool False, r)
      | None \<Rightarrow>
     (case strip_prefix [CHR 0x22] s of
        Some r \<Rightarrow> map_option (apfst JStr) (parse_chars r)
      | None \<Rightarrow>
     (case strip_prefix ''[]'' s of
        Some r \<Rightarrow> Some (JArr [], r)
      | None \<Rightarrow>
     (case strip_prefix ''['' s of
        Some r \<Rightarrow> map_option (apfst JArr) (parse_elems f r)
      | None \<Rightarrow>
     (case strip_prefix ''{}'' s of
        Some r \<Rightarrow> Some (JObj [], r)
      | None \<Rightarrow>
     (case strip_prefix ''{'' s of
        Some r \<Rightarrow> map_option (apfst JObj) (parse_members f r)
      | None \<Rightarrow> None)))))))))"
| "parse_elems 0 s = None"
| "parse_elems (Suc f) s =
     (case parse_value f s of
        None \<Rightarrow> None
      | Some (v, r) \<Rightarrow>
          (case strip_prefix '','' r of
             Some r' \<Rightarrow> map_option (apfst (Cons v)) (parse_elems f r')
           | None \<Rightarrow>
               (case strip_prefix '']'' r of
                  Some r' \<Rightarrow> Some ([v], r')
                | None \<Rightarrow> None)))"
| "parse_members 0 s = None"
| "parse_members (Suc f) s =
     (case strip_prefix [CHR 0x22] s of
        None \<Rightarrow> None
      | Some r \<Rightarrow>
          (case parse_chars r of
             None \<Rightarrow> None
           | Some (k, r1) \<Rightarrow>
               (case strip_prefix '':'' r1 of
                  None \<Rightarrow> None
                | Some r2 \<Rightarrow>
                    (case parse_value f r2 of
                       None \<Rightarrow> None
                     | Some (v, r3) \<Rightarrow>
                         (case strip_prefix '','' r3 of
                            Some r4 \<Rightarrow> map_option (apfst (Cons (k, v))) (parse_members f r4)
                          | None \<Rightarrow>
                              (case strip_prefix ''}'' r3 of
                                 Some r4 \<Rightarrow> Some ([(k, v)], r4)
                               | None \<Rightarrow> None))))))"

text \<open>A whole text as one value, with as much fuel as the text is long.\<close>

definition JSON_parse :: "string \<Rightarrow> jsval option" where
  "JSON_parse s =
     (case parse_value (length s) s of
        Some (v, r) \<Rightarrow> if r = [] then Some v else None
      | None \<Rightarrow> None)"

text \<open>What JSON keeps of a value: \<open>undefined\<close> is \<open>null\<close> inside an array and the
  property is absent inside an object.\<close>

fun json_norm :: "jsval \<Rightarrow> jsval" where
  "json_norm JUndefined = JNull"
| "json_norm (JArr xs) = JArr (map json_norm xs)"
| "json_norm (JObj ps) =
     JObj (map (\<lambda>(k, v). (k, json_norm v)) (filter (\<lambda>(k, v). v \<noteq> JUndefined) ps))"
| "json_norm v = v"

text \<open>A rest of input that cannot continue a number.\<close>

definition no_digit :: "string \<Rightarrow> bool" where
  "no_digit r = (case r of [] \<Rightarrow> True | c # cs \<Rightarrow> \<not> is_digit c)"

text \<open>The text of one property of an object, and the properties that have one.\<close>

definition member_text :: "string \<times> jsval \<Rightarrow> string" where
  "member_text p = json_quote (fst p) @ '':'' @ json_ser (snd p)"

definition present :: "string \<times> jsval \<Rightarrow> bool" where
  "present p = (snd p \<noteq> JUndefined)"

text \<open>The values of the model that are JavaScript values: a number is an integer a
  double holds exactly and prints in plain decimal (magnitude below \<open>2^53\<close>), and an
  object has each key once.\<close>

fun representable :: "jsval \<Rightarrow> bool" where
  "representable (JNum n) = (- 9007199254740992 < n \<and> n < 9007199254740992)"
| "representable (JArr xs) = list_all representable xs"
| "representable (JObj ps) = (distinct (map fst ps) \<and> list_all (\<lambda>p. representable (snd p)) ps)"
| "representable v = True"

section \<open>Facts about the encoders\<close>

lemma hex_upper_safe: "d < 16 \<Longrightarrow> form_safe (hex_upper d)"
proof -
  assume "d < 16"
  then have "d = 0 \<or> d = 1 \<or> d = 2 \<or> d = 3 \<or> d = 4 \<or> d = 5 \<or> d = 6 \<or> d = 7 \<or> d = 8
      \<or> d = 9 \<or> d = 10 \<or> d = 11 \<or> d = 12 \<or> d = 13 \<or> d = 14 \<or> d = 15"
    by arith
  then show ?thesis
    by (elim disjE) (simp_all add: hex_upper_def form_safe_def)
qed

lemma form_encode_byte_chars: "x \<in> set (form_encode_byte c) \<Longrightarrow> form_output_char x"
proof -
  assume x: "x \<in> set (form_encode_byte c)"
  have hi: "(of_char c :: nat) div 16 < 16"
    using nat_of_char_less_256 [of c] by arith
  have lo: "(of_char c :: nat) mod 16 < 16" by simp
  from x show ?thesis
    using hex_upper_safe [OF hi] hex_upper_safe [OF lo]
    by (auto simp: form_encode_byte_def form_output_char_def split: if_splits)
qed

lemma form_encode_chars: "x \<in> set (form_encode s) \<Longrightarrow> form_output_char x"
  by (auto simp: form_encode_def dest: form_encode_byte_chars)

lemma join_chars:
  "(\<And>c. c \<in> set sep \<Longrightarrow> P c) \<Longrightarrow> (\<And>x c. x \<in> set xs \<Longrightarrow> c \<in> set x \<Longrightarrow> P c)
    \<Longrightarrow> c \<in> set (join sep xs) \<Longrightarrow> P c"
  by (induction sep xs rule: join.induct) auto

lemma sequence_Inr: "sequence rs = Inr xs \<Longrightarrow> rs = map Inr xs"
  by (induction rs arbitrary: xs rule: sequence.induct) (auto split: sum.splits)

lemma form_pair_chars:
  assumes "form_pair p = Inr x" and "c \<in> set x"
  shows "form_output_char c"
proof -
  from assms(1) obtain v where x: "x = form_encode (fst p) @ ''='' @ form_encode v"
    by (auto simp: form_pair_def split: sum.splits)
  with assms(2)
  have "c \<in> set (form_encode (fst p)) \<or> c = CHR ''='' \<or> c \<in> set (form_encode v)"
    by auto
  then show ?thesis
    using form_encode_chars by (auto simp: form_output_char_def)
qed

lemma URLSearchParams_chars:
  assumes "URLSearchParams_toString ps = Inr b" and "c \<in> set b"
  shows "form_output_char c"
proof -
  from assms(1) obtain xs
    where seq: "sequence (map form_pair ps) = Inr xs" and b: "b = join ''&'' xs"
    by (auto simp: URLSearchParams_toString_def split: sum.splits)
  from seq have m: "map form_pair ps = map Inr xs" by (rule sequence_Inr)
  have each: "\<And>x c. x \<in> set xs \<Longrightarrow> c \<in> set x \<Longrightarrow> form_output_char c"
  proof -
    fix x c assume "x \<in> set xs" and cx: "c \<in> set x"
    then have "Inr x \<in> set (map form_pair ps)" using m by simp
    then obtain p where "form_pair p = Inr x" by auto
    then show "form_output_char c" using cx by (rule form_pair_chars)
  qed
  show ?thesis
  proof (rule join_chars [where sep = "''&''" and xs = xs])
    show "\<And>c. c \<in> set ''&'' \<Longrightarrow> form_output_char c" by (simp add: form_output_char_def)
    show "\<And>x c. x \<in> set xs \<Longrightarrow> c \<in> set x \<Longrightarrow> form_output_char c" by (rule each)
    show "c \<in> set (join ''&'' xs)" using assms(2) b by simp
  qed
qed

lemma is_JStr_String: "is_JStr v \<Longrightarrow> \<exists>s. js_String v = Inr s"
  by (cases v) simp_all

lemma flat_payload_serializes:
  "flat_payload ps \<Longrightarrow> \<exists>b. URLSearchParams_toString ps = Inr b"
proof -
  assume a: "flat_payload ps"
  have "\<exists>xs. sequence (map form_pair ps) = Inr xs" using a
  proof (induction ps)
    case Nil
    then show ?case by simp
  next
    case (Cons p ps)
    then obtain xs where xs: "sequence (map form_pair ps) = Inr xs"
      by (auto simp: flat_payload_def)
    from Cons.prems obtain s where "js_String (snd p) = Inr s"
      using is_JStr_String by (auto simp: flat_payload_def)
    then have "form_pair p = Inr (form_encode (fst p) @ ''='' @ form_encode s)"
      by (simp add: form_pair_def)
    then show ?case using xs by simp
  qed
  then show ?thesis by (auto simp: URLSearchParams_toString_def)
qed

lemma login_form_example:
  "URLSearchParams_toString [(''username'', JStr ''a@b.com''), (''password'', JStr ''p'')]
     = Inr ''username=a%40b.com&password=p''"
  by (simp add: URLSearchParams_toString_def form_pair_def form_encode_def
      form_encode_byte_def form_safe_def hex_upper_def)

lemma login_json_example:
  "JSON_stringify [(''email'', JStr ''a@b.com''), (''password'', JStr ''p'')]
     = ''{'' @ quoted ''email'' @ '':'' @ quoted ''a@b.com'' @ '',''
        @ quoted ''password'' @ '':'' @ quoted ''p'' @ ''}''"
  by (simp add: JSON_stringify_def json_quote_def json_escape_char_def quoted_def)

section \<open>The form encoding read back\<close>

lemma unhex_hex_upper: "d < 16 \<Longrightarrow> unhex (hex_upper d) = Some d"
proof -
  assume "d < 16"
  then have "d = 0 \<or> d = 1 \<or> d = 2 \<or> d = 3 \<or> d = 4 \<or> d = 5 \<or> d = 6 \<or> d = 7 \<or> d = 8
      \<or> d = 9 \<or> d = 10 \<or> d = 11 \<or> d = 12 \<or> d = 13 \<or> d = 14 \<or> d = 15"
    by arith
  then show ?thesis
    by (elim disjE) (simp_all add: hex_upper_def unhex_def)
qed

lemma form_safe_not_special:
  "form_safe c \<Longrightarrow> c \<noteq> CHR ''+'' \<and> c \<noteq> CHR ''%'' \<and> c \<noteq> CHR ''='' \<and> c \<noteq> CHR ''&''"
  by (auto simp: form_safe_def)

lemma form_decode_byte:
  "form_decode (form_encode_byte c @ r) = map_option (Cons c) (form_decode r)"
proof -
  have hi: "(of_char c :: nat) div 16 < 16"
    using nat_of_char_less_256 [of c] by arith
  have lo: "(of_char c :: nat) mod 16 < 16" by simp
  have rejoin: "char_of (16 * ((of_char c :: nat) div 16) + of_char c mod 16) = c"
    by simp
  show ?thesis
  proof (cases "form_safe c")
    case True
    then show ?thesis
      using form_safe_not_special [of c] by (simp add: form_encode_byte_def)
  next
    case False
    then show ?thesis
      using unhex_hex_upper [OF hi] unhex_hex_upper [OF lo] rejoin
      by (simp add: form_encode_byte_def)
  qed
qed

lemma form_decode_encode: "form_decode (form_encode s @ r) = map_option ((@) s) (form_decode r)"
proof (induction s)
  case Nil
  then show ?case by (simp add: form_encode_def option.map_ident)
next
  case (Cons c s)
  have "form_encode (c # s) @ r = form_encode_byte c @ (form_encode s @ r)"
    by (simp add: form_encode_def)
  then show ?case
    using Cons.IH by (simp add: form_decode_byte option.map_comp comp_def)
qed


lemma form_encode_byte_plain:
  "x \<in> set (form_encode_byte c) \<Longrightarrow> form_safe x \<or> x = CHR ''+'' \<or> x = CHR ''%''"
proof -
  assume x: "x \<in> set (form_encode_byte c)"
  have hi: "(of_char c :: nat) div 16 < 16"
    using nat_of_char_less_256 [of c] by arith
  have lo: "(of_char c :: nat) mod 16 < 16" by simp
  from x show ?thesis
    using hex_upper_safe [OF hi] hex_upper_safe [OF lo]
    by (auto simp: form_encode_byte_def split: if_splits)
qed

lemma form_encode_no_separator:
  "x \<in> set (form_encode s) \<Longrightarrow> x \<noteq> CHR ''='' \<and> x \<noteq> CHR ''&''"
proof -
  assume "x \<in> set (form_encode s)"
  then obtain c where "x \<in> set (form_encode_byte c)"
    by (auto simp: form_encode_def)
  then have "form_safe x \<or> x = CHR ''+'' \<or> x = CHR ''%''"
    by (rule form_encode_byte_plain)
  then show ?thesis
    using form_safe_not_special [of x] by auto
qed

lemma split_on_absent: "d \<notin> set xs \<Longrightarrow> split_on d xs = [xs]"
  by (induction xs) auto

lemma split_on_first: "d \<notin> set xs \<Longrightarrow> split_on d (xs @ d # ys) = xs # split_on d ys"
  by (induction xs) auto

lemma form_decode_whole: "form_decode (form_encode s) = Some s"
  using form_decode_encode [of s "[]"] by simp

lemma form_parse_pair_text: "form_parse_pair (pair_text kv) = Some kv"
proof -
  have k: "CHR ''='' \<notin> set (form_encode (fst kv))"
    using form_encode_no_separator by blast
  have v: "CHR ''='' \<notin> set (form_encode (snd kv))"
    using form_encode_no_separator by blast
  have "split_on CHR ''='' (pair_text kv) = [form_encode (fst kv), form_encode (snd kv)]"
    using split_on_first [OF k, of "form_encode (snd kv)"] split_on_absent [OF v]
    by (simp add: pair_text_def)
  then show ?thesis
    by (simp add: form_parse_pair_def form_decode_whole)
qed

lemma pair_text_no_amp: "CHR ''&'' \<notin> set (pair_text kv)"
  using form_encode_no_separator by (auto simp: pair_text_def)

lemma pair_text_not_empty: "pair_text kv \<noteq> []"
  by (simp add: pair_text_def)

lemma split_join_pairs:
  "kvs \<noteq> [] \<Longrightarrow> split_on CHR ''&'' (join ''&'' (map pair_text kvs)) = map pair_text kvs"
proof (induction kvs)
  case Nil
  then show ?case by simp
next
  case (Cons kv kvs)
  show ?case
  proof (cases kvs)
    case Nil
    then show ?thesis
      using split_on_absent [OF pair_text_no_amp [of kv]] by simp
  next
    case (Cons kv' kvs')
    then have "join ''&'' (map pair_text (kv # kvs))
        = pair_text kv @ CHR ''&'' # join ''&'' (map pair_text kvs)"
      by simp
    then show ?thesis
      using split_on_first [OF pair_text_no_amp [of kv]] Cons.IH Cons by simp
  qed
qed

lemma join_pairs_not_empty: "kvs \<noteq> [] \<Longrightarrow> join ''&'' (map pair_text kvs) \<noteq> []"
proof (cases kvs)
  case Nil
  assume "kvs \<noteq> []"
  with Nil show ?thesis by simp
next
  case (Cons kv kvs')
  then show ?thesis
    by (cases kvs') (simp_all add: pair_text_not_empty)
qed

lemma all_some_pairs: "all_some (map (form_parse_pair \<circ> pair_text) kvs) = Some kvs"
  by (induction kvs) (simp_all add: form_parse_pair_text)

lemma form_parse_join: "form_parse (join ''&'' (map pair_text kvs)) = Some kvs"
proof (cases "kvs = []")
  case True
  then show ?thesis by (simp add: form_parse_def)
next
  case False
  then show ?thesis
    using split_join_pairs [OF False] join_pairs_not_empty [OF False]
    by (simp add: form_parse_def all_some_pairs)
qed

lemma form_pairs_fields:
  "sequence (map form_pair ps) = Inr xs \<Longrightarrow>
     \<exists>kvs. string_fields ps = Inr kvs \<and> xs = map pair_text kvs"
proof (induction ps arbitrary: xs)
  case Nil
  then show ?case by (simp add: string_fields_def)
next
  case (Cons p ps)
  from Cons.prems obtain x xs' where x: "form_pair p = Inr x"
    and xs': "sequence (map form_pair ps) = Inr xs'" and xs: "xs = x # xs'"
    by (cases "form_pair p") (auto split: sum.splits)
  from x obtain s where s: "js_String (snd p) = Inr s" and xt: "x = pair_text (fst p, s)"
    by (auto simp: form_pair_def pair_text_def split: sum.splits)
  from Cons.IH [OF xs'] obtain kvs where kvs: "string_fields ps = Inr kvs"
    and m: "xs' = map pair_text kvs" by blast
  have "string_fields (p # ps) = Inr ((fst p, s) # kvs)"
    using s kvs by (simp add: string_fields_def string_field_def)
  then show ?case using xs xt m by simp
qed

lemma URLSearchParams_parses_back:
  assumes "URLSearchParams_toString ps = Inr b"
  shows "\<exists>kvs. string_fields ps = Inr kvs \<and> form_parse b = Some kvs"
proof -
  from assms obtain xs
    where seq: "sequence (map form_pair ps) = Inr xs" and b: "b = join ''&'' xs"
    by (auto simp: URLSearchParams_toString_def split: sum.splits)
  from form_pairs_fields [OF seq] obtain kvs
    where "string_fields ps = Inr kvs" and "xs = map pair_text kvs" by blast
  then show ?thesis using b form_parse_join by auto
qed

section \<open>JSON text read back\<close>

lemma strip_prefix_append: "strip_prefix p (p @ r) = Some r"
  by (induction p) simp_all

lemma is_digit_digit_char: "d < 10 \<Longrightarrow> is_digit (digit_char d)"
  by (simp add: is_digit_def digit_char_def)

lemma digit_char_val: "d < 10 \<Longrightarrow> (of_char (digit_char d) :: nat) - 48 = d"
  by (simp add: digit_char_def)

lemma nat_digits_all: "c \<in> set (nat_digits n) \<Longrightarrow> is_digit c"
proof (induction n arbitrary: c rule: nat_digits.induct)
  case (1 n)
  show ?case
  proof (cases "n < 10")
    case True
    then have "nat_digits n = [digit_char n]" by (simp add: nat_digits.simps [of n])
    then show ?thesis using 1(2) True is_digit_digit_char by simp
  next
    case False
    then have e: "nat_digits n = nat_digits (n div 10) @ [digit_char (n mod 10)]"
      by (simp add: nat_digits.simps [of n])
    have "is_digit (digit_char (n mod 10))" by (rule is_digit_digit_char) simp
    then show ?thesis using 1(1) [OF False] 1(2) e by auto
  qed
qed

lemma digits_val_snoc: "digits_val (ds @ [d]) = 10 * digits_val ds + (of_char d - 48)"
  by (simp add: digits_val_def)

lemma digits_val_nat_digits: "digits_val (nat_digits n) = n"
proof (induction n rule: nat_digits.induct)
  case (1 n)
  show ?case
  proof (cases "n < 10")
    case True
    then have "nat_digits n = [digit_char n]" by (simp add: nat_digits.simps [of n])
    then show ?thesis using True digit_char_val by (simp add: digits_val_def)
  next
    case False
    then have e: "nat_digits n = nat_digits (n div 10) @ [digit_char (n mod 10)]"
      by (simp add: nat_digits.simps [of n])
    have "(of_char (digit_char (n mod 10)) :: nat) - 48 = n mod 10"
      by (rule digit_char_val) simp
    then show ?thesis using 1 [OF False] e by (simp add: digits_val_snoc)
  qed
qed

lemma nat_digits_not_empty: "nat_digits n \<noteq> []"
  by (simp add: nat_digits.simps [of n])

lemma no_digit_take: "no_digit r \<Longrightarrow> takeWhile is_digit r = []"
  by (cases r) (simp_all add: no_digit_def)

lemma no_digit_drop: "no_digit r \<Longrightarrow> dropWhile is_digit r = r"
  by (cases r) (simp_all add: no_digit_def)

lemma take_nat_digits: "no_digit r \<Longrightarrow> takeWhile is_digit (nat_digits n @ r) = nat_digits n"
  using nat_digits_all by (simp add: no_digit_take)

lemma drop_nat_digits: "no_digit r \<Longrightarrow> dropWhile is_digit (nat_digits n @ r) = r"
  using nat_digits_all by (simp add: no_digit_drop)

lemma nat_digits_first: "\<exists>d ds. nat_digits n = d # ds \<and> is_digit d"
proof (cases "nat_digits n")
  case Nil
  then show ?thesis using nat_digits_not_empty by simp
next
  case (Cons d ds)
  then have "d \<in> set (nat_digits n)" by simp
  then show ?thesis using Cons nat_digits_all by blast
qed

lemma is_digit_not_minus: "is_digit d \<Longrightarrow> d \<noteq> CHR ''-''"
  by (auto simp: is_digit_def)

lemma parse_number_int:
  assumes "no_digit r"
  shows "parse_number (int_to_string i @ r) = Some (JNum i, r)"
proof (cases "i < 0")
  case True
  then show ?thesis
    using take_nat_digits [OF assms] drop_nat_digits [OF assms] nat_digits_not_empty
    by (simp add: parse_number_def int_to_string_def digits_val_nat_digits)
next
  case False
  obtain d ds where d: "nat_digits (nat i) = d # ds" and dig: "is_digit d"
    using nat_digits_first by blast
  have "parse_number (nat_digits (nat i) @ r)
      = Some (JNum (int (digits_val (takeWhile is_digit (nat_digits (nat i) @ r)))),
              dropWhile is_digit (nat_digits (nat i) @ r))"
    using d dig is_digit_not_minus [OF dig] by (simp add: parse_number_def)
  then show ?thesis
    using False take_nat_digits [OF assms] drop_nat_digits [OF assms]
    by (simp add: int_to_string_def digits_val_nat_digits)
qed

lemma unhex_hex_lower: "d < 16 \<Longrightarrow> unhex (hex_lower d) = Some d"
proof -
  assume "d < 16"
  then have "d = 0 \<or> d = 1 \<or> d = 2 \<or> d = 3 \<or> d = 4 \<or> d = 5 \<or> d = 6 \<or> d = 7 \<or> d = 8
      \<or> d = 9 \<or> d = 10 \<or> d = 11 \<or> d = 12 \<or> d = 13 \<or> d = 14 \<or> d = 15"
    by arith
  then show ?thesis
    by (elim disjE) (simp_all add: hex_lower_def unhex_def)
qed

lemma char_by_code: "(of_char c :: nat) = n \<Longrightarrow> c = char_of n"
  by auto

lemma char_by_literal: "(of_char c :: nat) = of_char d \<Longrightarrow> c = d"
  by simp

lemma hex4_control:
  assumes "(of_char c :: nat) < 32"
  shows "hex4 CHR ''0'' CHR ''0'' (hex_lower (of_char c div 16)) (hex_lower (of_char c mod 16))
           = Some c"
proof -
  have hi: "(of_char c :: nat) div 16 < 16" using assms by arith
  have lo: "(of_char c :: nat) mod 16 < 16" by simp
  have z: "unhex CHR ''0'' = Some 0" by (simp add: unhex_def)
  have v: "(of_char c :: nat) div 16 * 16 + of_char c mod 16 = of_char c" by simp
  show ?thesis
    using unhex_hex_lower [OF hi] unhex_hex_lower [OF lo] z assms
    by (simp add: hex4_def v)
qed

lemma parse_chars_escape:
  "parse_chars (json_escape_char c @ r) = map_option (apfst (Cons c)) (parse_chars r)"
proof -
  consider (quote) "(of_char c :: nat) = 0x22" | (bslash) "(of_char c :: nat) = 0x5C"
    | (b) "(of_char c :: nat) = 8" | (t) "(of_char c :: nat) = 9"
    | (n) "(of_char c :: nat) = 10" | (f) "(of_char c :: nat) = 12"
    | (r) "(of_char c :: nat) = 13"
    | (ctl) "(of_char c :: nat) < 32" "(of_char c :: nat) \<noteq> 8" "(of_char c :: nat) \<noteq> 9"
        "(of_char c :: nat) \<noteq> 10" "(of_char c :: nat) \<noteq> 12" "(of_char c :: nat) \<noteq> 13"
    | (plain) "(of_char c :: nat) \<ge> 32" "(of_char c :: nat) \<noteq> 0x22" "(of_char c :: nat) \<noteq> 0x5C"
    by linarith
  then show ?thesis
  proof cases
    case quote
    then have "c = CHR 0x22" by (intro char_by_literal) simp
    then show ?thesis by (simp add: json_escape_char_def json_unescape_def)
  next
    case bslash
    then have "c = CHR 0x5C" by (intro char_by_literal) simp
    then show ?thesis by (simp add: json_escape_char_def json_unescape_def)
  next
    case b
    then have "c = char_of (8 :: nat)" by (rule char_by_code)
    then show ?thesis by (simp add: json_escape_char_def json_unescape_def)
  next
    case t
    then have "c = char_of (9 :: nat)" by (rule char_by_code)
    then show ?thesis by (simp add: json_escape_char_def json_unescape_def)
  next
    case n
    then have "c = char_of (10 :: nat)" by (rule char_by_code)
    then show ?thesis by (simp add: json_escape_char_def json_unescape_def)
  next
    case f
    then have "c = char_of (12 :: nat)" by (rule char_by_code)
    then show ?thesis by (simp add: json_escape_char_def json_unescape_def)
  next
    case r
    then have "c = char_of (13 :: nat)" by (rule char_by_code)
    then show ?thesis by (simp add: json_escape_char_def json_unescape_def)
  next
    case ctl
    then have e: "json_escape_char c
        = [CHR 0x5C, CHR ''u'', CHR ''0'', CHR ''0'',
           hex_lower (of_char c div 16), hex_lower (of_char c mod 16)]"
      by (simp add: json_escape_char_def Let_def)
    show ?thesis
      using hex4_control [OF ctl(1)] by (simp add: e)
  next
    case plain
    then show ?thesis by (simp add: json_escape_char_def Let_def)
  qed
qed

lemma parse_chars_string:
  "parse_chars (concat (map json_escape_char s) @ CHR 0x22 # r) = Some (s, r)"
proof (induction s)
  case Nil
  then show ?case by simp
next
  case (Cons c s)
  have "concat (map json_escape_char (c # s)) @ CHR 0x22 # r
      = json_escape_char c @ (concat (map json_escape_char s) @ CHR 0x22 # r)"
    by simp
  then show ?case using Cons.IH by (simp only: parse_chars_escape) simp
qed

lemma pv_null: "parse_value (Suc f) (''null'' @ r) = Some (JNull, r)"
  by (simp add: parse_number_def is_digit_def)

lemma pv_true: "parse_value (Suc f) (''true'' @ r) = Some (JBool True, r)"
  by (simp add: parse_number_def is_digit_def)

lemma pv_false: "parse_value (Suc f) (''false'' @ r) = Some (JBool False, r)"
  by (simp add: parse_number_def is_digit_def)

lemma pv_num: "no_digit r \<Longrightarrow> parse_value (Suc f) (int_to_string i @ r) = Some (JNum i, r)"
  by (simp add: parse_number_int)

lemma pv_str: "parse_value (Suc f) (json_quote s @ r) = Some (JStr s, r)"
  by (simp add: json_quote_def parse_number_def is_digit_def parse_chars_string)

lemma pv_arr_empty: "parse_value (Suc f) (''[]'' @ r) = Some (JArr [], r)"
  by (simp add: parse_number_def is_digit_def)

lemma pv_arr:
  "c \<noteq> CHR '']'' \<Longrightarrow>
     parse_value (Suc f) (CHR ''['' # c # t) = map_option (apfst JArr) (parse_elems f (c # t))"
  by (simp add: parse_number_def is_digit_def)

lemma pv_obj_empty: "parse_value (Suc f) (''{}'' @ r) = Some (JObj [], r)"
  by (simp add: parse_number_def is_digit_def)

lemma pv_obj:
  "parse_value (Suc f) (CHR ''{'' # CHR 0x22 # t)
     = map_option (apfst JObj) (parse_members f (CHR 0x22 # t))"
  by (simp add: parse_number_def is_digit_def)

lemma is_digit_not_bracket: "is_digit d \<Longrightarrow> d \<noteq> CHR '']''"
  by (auto simp: is_digit_def)

lemma json_ser_first: "\<exists>c cs. json_ser v = c # cs \<and> c \<noteq> CHR '']''"
proof (cases v)
  case (JNum i)
  obtain d ds where d: "nat_digits (nat i) = d # ds" and dig: "is_digit d"
    using nat_digits_first by blast
  show ?thesis
    using JNum d is_digit_not_bracket [OF dig] by (simp add: int_to_string_def)
next
  case (JBool b)
  then show ?thesis by (cases b) simp_all
qed (simp_all add: json_quote_def)

lemma no_digit_comma: "no_digit (CHR '','' # r)"
  by (simp add: no_digit_def is_digit_def)

lemma no_digit_bracket: "no_digit (CHR '']'' # r)"
  by (simp add: no_digit_def is_digit_def)

lemma no_digit_brace: "no_digit (CHR ''}'' # r)"
  by (simp add: no_digit_def is_digit_def)

lemma parse_elems_step_last:
  "parse_value f s = Some (v, CHR '']'' # r) \<Longrightarrow> parse_elems (Suc f) s = Some ([v], r)"
  by simp

lemma parse_elems_step_more:
  "parse_value f s = Some (v, CHR '','' # t) \<Longrightarrow>
     parse_elems (Suc f) s = map_option (apfst (Cons v)) (parse_elems f t)"
  by simp

lemma elems_round_trip:
  assumes "\<And>x f r. x \<in> set xs \<Longrightarrow> length (json_ser x) \<le> f \<Longrightarrow> no_digit r
             \<Longrightarrow> parse_value f (json_ser x @ r) = Some (json_norm x, r)"
    and "xs \<noteq> []"
    and "length (join '','' (map json_ser xs)) < f"
  shows "parse_elems f (join '','' (map json_ser xs) @ CHR '']'' # r)
           = Some (map json_norm xs, r)"
  using assms
proof (induction xs arbitrary: f)
  case Nil
  then show ?case by simp
next
  case (Cons x xs)
  from Cons.prems(3) obtain f' where f: "f = Suc f'" by (cases f) simp_all
  show ?case
  proof (cases xs)
    case Nil
    have "length (json_ser x) \<le> f'" using Cons.prems(3) f Nil by simp
    then have "parse_value f' (json_ser x @ CHR '']'' # r) = Some (json_norm x, CHR '']'' # r)"
      using Cons.prems(1) [of x f' "CHR '']'' # r"] no_digit_bracket by simp
    then show ?thesis
      using Nil f parse_elems_step_last by simp
  next
    case (Cons y ys)
    let ?rest = "join '','' (map json_ser xs) @ CHR '']'' # r"
    have shape: "join '','' (map json_ser (x # xs)) @ CHR '']'' # r
        = json_ser x @ CHR '','' # ?rest"
      using Cons by simp
    have len: "length (json_ser x) \<le> f'" "length (join '','' (map json_ser xs)) < f'"
      using Cons.prems(3) f Cons by simp_all
    have "parse_value f' (json_ser x @ CHR '','' # ?rest) = Some (json_norm x, CHR '','' # ?rest)"
      using Cons.prems(1) [of x f' "CHR '','' # ?rest"] len(1) no_digit_comma by simp
    then have step: "parse_elems f (json_ser x @ CHR '','' # ?rest)
        = map_option (apfst (Cons (json_norm x))) (parse_elems f' ?rest)"
      using f parse_elems_step_more by simp
    have "parse_elems f' ?rest = Some (map json_norm xs, r)"
      using Cons.IH [of f'] Cons.prems(1) len(2) Cons by simp
    then show ?thesis
      using step shape by simp
  qed
qed

lemma json_ser_obj:
  "json_ser (JObj ps) = ''{'' @ join '','' (map member_text (filter present ps)) @ ''}''"
proof -
  have a: "(\<lambda>(k, v). json_quote k @ '':'' @ json_ser v) = member_text"
    by (auto simp: member_text_def fun_eq_iff)
  have b: "(\<lambda>(k, v). v \<noteq> JUndefined) = present"
    by (auto simp: present_def fun_eq_iff)
  show ?thesis by (simp only: json_ser.simps a b)
qed

lemma json_norm_obj:
  "json_norm (JObj ps) = JObj (map (\<lambda>p. (fst p, json_norm (snd p))) (filter present ps))"
proof -
  have a: "(\<lambda>(k, v). (k, json_norm v)) = (\<lambda>p. (fst p, json_norm (snd p)))"
    by (auto simp: fun_eq_iff)
  have b: "(\<lambda>(k, v). v \<noteq> JUndefined) = present"
    by (auto simp: present_def fun_eq_iff)
  show ?thesis by (simp only: json_norm.simps a b)
qed

lemma parse_members_step_last:
  "parse_value f s = Some (v, CHR ''}'' # r) \<Longrightarrow>
     parse_members (Suc f) (json_quote k @ CHR '':'' # s) = Some ([(k, v)], r)"
  by (simp add: json_quote_def parse_chars_string)

lemma parse_members_step_more:
  "parse_value f s = Some (v, CHR '','' # t) \<Longrightarrow>
     parse_members (Suc f) (json_quote k @ CHR '':'' # s)
       = map_option (apfst (Cons (k, v))) (parse_members f t)"
  by (simp add: json_quote_def parse_chars_string)

lemma members_round_trip:
  assumes "\<And>p f r. p \<in> set qs \<Longrightarrow> length (json_ser (snd p)) \<le> f \<Longrightarrow> no_digit r
             \<Longrightarrow> parse_value f (json_ser (snd p) @ r) = Some (json_norm (snd p), r)"
    and "qs \<noteq> []"
    and "length (join '','' (map member_text qs)) < f"
  shows "parse_members f (join '','' (map member_text qs) @ CHR ''}'' # r)
           = Some (map (\<lambda>p. (fst p, json_norm (snd p))) qs, r)"
  using assms
proof (induction qs arbitrary: f)
  case Nil
  then show ?case by simp
next
  case (Cons q qs)
  from Cons.prems(3) obtain f' where f: "f = Suc f'" by (cases f) simp_all
  show ?case
  proof (cases qs)
    case Nil
    have "length (member_text q) < f"
      using Cons.prems(3) Nil by simp
    then have "length (json_ser (snd q)) \<le> f'"
      using f by (simp add: member_text_def)
    then have "parse_value f' (json_ser (snd q) @ CHR ''}'' # r)
        = Some (json_norm (snd q), CHR ''}'' # r)"
      using Cons.prems(1) [of q f' "CHR ''}'' # r"] no_digit_brace by simp
    then have "parse_members (Suc f') (json_quote (fst q) @ CHR '':'' # json_ser (snd q) @ CHR ''}'' # r)
        = Some ([(fst q, json_norm (snd q))], r)"
      by (rule parse_members_step_last)
    then show ?thesis
      using Nil f by (simp add: member_text_def)
  next
    case (Cons q' qs')
    let ?rest = "join '','' (map member_text qs) @ CHR ''}'' # r"
    have joined: "join '','' (map member_text (q # qs))
        = member_text q @ CHR '','' # join '','' (map member_text qs)"
      using Cons by simp
    have mt: "member_text q = json_quote (fst q) @ CHR '':'' # json_ser (snd q)"
      by (simp add: member_text_def)
    have shape: "join '','' (map member_text (q # qs)) @ CHR ''}'' # r
        = json_quote (fst q) @ CHR '':'' # json_ser (snd q) @ CHR '','' # ?rest"
      by (simp only: joined mt) simp
    have "length (member_text q) + 1 + length (join '','' (map member_text qs)) < f"
      using Cons.prems(3) by (simp only: joined) simp
    then have len: "length (json_ser (snd q)) \<le> f'"
        "length (join '','' (map member_text qs)) < f'"
      using f by (simp_all add: mt)
    have "parse_value f' (json_ser (snd q) @ CHR '','' # ?rest)
        = Some (json_norm (snd q), CHR '','' # ?rest)"
      using Cons.prems(1) [of q f' "CHR '','' # ?rest"] len(1) no_digit_comma by simp
    then have step: "parse_members (Suc f')
          (json_quote (fst q) @ CHR '':'' # json_ser (snd q) @ CHR '','' # ?rest)
        = map_option (apfst (Cons (fst q, json_norm (snd q)))) (parse_members f' ?rest)"
      by (rule parse_members_step_more)
    have "parse_members f' ?rest = Some (map (\<lambda>p. (fst p, json_norm (snd p))) qs, r)"
      using Cons.IH [of f'] Cons.prems(1) len(2) Cons by simp
    then show ?thesis
      using step shape f by simp
  qed
qed

declare parse_value.simps [simp del]
declare parse_elems.simps [simp del]
declare parse_members.simps [simp del]

lemma json_round_trip_value:
  "length (json_ser v) \<le> f \<Longrightarrow> no_digit r
     \<Longrightarrow> parse_value f (json_ser v @ r) = Some (json_norm v, r)"
proof (induction v arbitrary: f r)
  case JUndefined
  then obtain f' where "f = Suc f'" by (cases f) simp_all
  then show ?case using pv_null by simp
next
  case JNull
  then obtain f' where "f = Suc f'" by (cases f) simp_all
  then show ?case using pv_null by simp
next
  case (JBool b)
  then obtain f' where "f = Suc f'" by (cases f; cases b) simp_all
  then show ?case using pv_true pv_false by (cases b) simp_all
next
  case (JNum i)
  obtain c cs where "json_ser (JNum i) = c # cs" using json_ser_first by blast
  with JNum.prems(1) obtain f' where "f = Suc f'" by (cases f) simp_all
  then show ?case using pv_num [OF JNum.prems(2)] by simp
next
  case (JStr s)
  then obtain f' where "f = Suc f'" by (cases f) (simp_all add: json_quote_def)
  then show ?case using pv_str by simp
next
  case (JArr xs)
  from JArr.prems(1) obtain f' where f: "f = Suc f'" by (cases f) simp_all
  show ?case
  proof (cases "xs = []")
    case True
    then show ?thesis using f pv_arr_empty [of f' r] by simp
  next
    case False
    then obtain x xs' where xs: "xs = x # xs'" by (cases xs) simp_all
    obtain c cs where c: "json_ser x = c # cs" "c \<noteq> CHR '']''"
      using json_ser_first by blast
    have "\<exists>t. join '','' (map json_ser xs) @ CHR '']'' # r = c # t"
      using xs c(1) by (cases xs') simp_all
    then obtain t where t: "join '','' (map json_ser xs) @ CHR '']'' # r = c # t" by blast
    have len: "length (join '','' (map json_ser xs)) < f'"
      using JArr.prems(1) f by simp
    have "parse_elems f' (join '','' (map json_ser xs) @ CHR '']'' # r)
        = Some (map json_norm xs, r)"
      using JArr.IH False len by (intro elems_round_trip) simp_all
    then have "parse_value (Suc f') (CHR ''['' # c # t) = Some (JArr (map json_norm xs), r)"
      using pv_arr [OF c(2), of f' t] t by simp
    then show ?thesis using f t by simp
  qed
next
  case (JObj ps)
  let ?qs = "filter present ps"
  have ser: "json_ser (JObj ps) = CHR ''{'' # join '','' (map member_text ?qs) @ ''}''"
    by (simp only: json_ser_obj) simp
  have norm: "json_norm (JObj ps) = JObj (map (\<lambda>p. (fst p, json_norm (snd p))) ?qs)"
    by (rule json_norm_obj)
  from JObj.prems(1) obtain f' where f: "f = Suc f'" by (cases f) (simp_all add: ser)
  show ?case
  proof (cases "?qs = []")
    case True
    then show ?thesis
      unfolding ser norm f using pv_obj_empty [of f' r] by simp
  next
    case False
    then obtain q qs' where qs: "?qs = q # qs'" by (cases ?qs) simp_all
    have "\<exists>t. join '','' (map member_text ?qs) @ CHR ''}'' # r = CHR 0x22 # t"
      unfolding qs by (cases qs') (simp_all add: member_text_def json_quote_def)
    then obtain t where t: "join '','' (map member_text ?qs) @ CHR ''}'' # r = CHR 0x22 # t"
      by blast
    have len: "length (join '','' (map member_text ?qs)) < f'"
      using JObj.prems(1) f unfolding ser by simp
    have ih: "\<And>p f r. p \<in> set ?qs \<Longrightarrow> length (json_ser (snd p)) \<le> f \<Longrightarrow> no_digit r
         \<Longrightarrow> parse_value f (json_ser (snd p) @ r) = Some (json_norm (snd p), r)"
    proof -
      fix p :: "string \<times> jsval" and f r
      assume p: "p \<in> set ?qs" and l: "length (json_ser (snd p)) \<le> f" and n: "no_digit r"
      from p have "p \<in> set ps" by simp
      moreover have "snd p \<in> Basic_BNFs.snds p" by (cases p) simp
      ultimately show "parse_value f (json_ser (snd p) @ r) = Some (json_norm (snd p), r)"
        using JObj.IH l n by blast
    qed
    have "parse_members f' (join '','' (map member_text ?qs) @ CHR ''}'' # r)
        = Some (map (\<lambda>p. (fst p, json_norm (snd p))) ?qs, r)"
      using ih False len by (intro members_round_trip) simp_all
    then have "parse_value (Suc f') (CHR ''{'' # CHR 0x22 # t)
        = Some (JObj (map (\<lambda>p. (fst p, json_norm (snd p))) ?qs), r)"
      using pv_obj [of f' t] t by simp
    then show ?thesis
      unfolding ser norm f using t by simp
  qed
qed

lemma JSON_parse_stringify: "JSON_parse (JSON_stringify ps) = Some (json_norm (JObj ps))"
proof -
  have "parse_value (length (json_ser (JObj ps))) (json_ser (JObj ps) @ [])
      = Some (json_norm (JObj ps), [])"
    by (rule json_round_trip_value) (simp_all add: no_digit_def)
  then show ?thesis
    by (simp add: JSON_parse_def JSON_stringify_def del: json_norm.simps json_ser.simps)
qed

section \<open>What post does with the request\<close>

lemma post_sends_request:
  "post_request e path payload opts = Inr rq \<Longrightarrow>
     post fetch e path payload opts
       = (case fetch rq of
            Inl err \<Rightarrow> Inl err
          | Inr res \<Rightarrow> if \<not> res_ok res then Inl (Error (res_text res)) else response_json res)
     \<and> post2 fetch e path payload opts
       = (case fetch rq of Inl err \<Rightarrow> Inl err | Inr res \<Rightarrow> response_json res)"
  by (simp add: post_def post2_def)

lemma post_sends_nothing:
  "post_request e path payload opts = Inl err \<Longrightarrow>
     post fetch e path payload opts = Inl err \<and> post2 fetch e path payload opts = Inl err"
  by (simp add: post_def post2_def)

lemma structured_example:
  "JSON_stringify
     [(''note'', JStr [CHR ''a'', CHR 0x22, CHR 0x5C, CHR 0x0A, CHR 0x01]),
      (''n'', JNum (- 120)), (''skip'', JUndefined),
      (''xs'', JArr [JBool True, JNull, JUndefined, JObj []])]
   = ''{'' @ quoted ''note'' @ '':''
       @ [CHR 0x22, CHR ''a'', CHR 0x5C, CHR 0x22, CHR 0x5C, CHR 0x5C, CHR 0x5C, CHR ''n'',
          CHR 0x5C, CHR ''u'', CHR ''0'', CHR ''0'', CHR ''0'', CHR ''1'', CHR 0x22]
       @ '','' @ quoted ''n'' @ '':-120,'' @ quoted ''xs'' @ '':[true,null,null,{}]}''"
  by code_simp

lemma search_form_example:
  "URLSearchParams_toString [(''q'', JStr ''x y&z''), (''n'', JNum 7)] = Inr ''q=x+y%26z&n=7''"
  by code_simp

lemma search_fields_example:
  "string_fields [(''q'', JStr ''x y&z''), (''n'', JNum 7)] = Inr [(''q'', ''x y&z''), (''n'', ''7'')]"
  by code_simp

section \<open>Sibling paths\<close>

text \<open>The first \<open>post\<close> and \<open>get\<close> reject a response that is not ok with its text.\<close>

lemma post_rejects_not_ok:
  "post_request e path payload opts = Inr rq \<Longrightarrow> fetch rq = Inr res \<Longrightarrow> \<not> res_ok res
     \<Longrightarrow> post fetch e path payload opts = Inl (Error (res_text res))"
  by (simp add: post_def)

lemma get_rejects_not_ok:
  "fetch (get_request e path tok) = Inr res \<Longrightarrow> \<not> res_ok res
     \<Longrightarrow> get fetch e path tok = Inl (Error (res_text res))"
  by (simp add: get_def)

text \<open>The login page sends the form-encoded pair to the base URL of api.ts.\<close>

lemma LoginPage_request_form:
  "LoginPage_request e ''a@b.com'' ''p''
     = Inr \<lparr>req_url = API_BASE e @ ''/auth/login'', req_method = ''POST'',
            req_headers = [(''Content-Type'', ''application/x-www-form-urlencoded'')],
            req_body = Some ''username=a%40b.com&password=p''\<rparr>"
  by (simp add: LoginPage_request_def post_request_def post_headers_def form_on_def
      login_form_example)

lemma API_BASE_fallback:
  "API_BASE \<lparr>NEXT_PUBLIC_API_BASE_URL = None, NEXT_PUBLIC_API_URL = u\<rparr>
     = ''http://127.0.0.1:8000''"
  by (simp add: API_BASE_def)

lemma API_BASE_configured:
  "b \<noteq> [] \<Longrightarrow> API_BASE \<lparr>NEXT_PUBLIC_API_BASE_URL = Some b, NEXT_PUBLIC_API_URL = u\<rparr> = b"
  by (simp add: API_BASE_def)

text \<open>The deep-dive and consult pages return nothing without a token.\<close>

lemma DeepDivePage_guard:
  "DeepDivePage (Some (AuthProvider_value s))
     = Inr \<lparr>rendered = (if isAuthenticated (AuthProvider_value s) then Some ''Deep Dive'' else None),
            effect_pushes = (if isAuthenticated (AuthProvider_value s) then [] else [''/login''])\<rparr>"
  by (simp add: DeepDivePage_def useAuth_def AuthProvider_value_def guard_effect_def)

lemma ConsultPage_guard:
  "ConsultPage (Some (AuthProvider_value s))
     = Inr \<lparr>rendered =
              (if isAuthenticated (AuthProvider_value s) then Some ''Consult AI Agent'' else None),
            effect_pushes = (if isAuthenticated (AuthProvider_value s) then [] else [''/login''])\<rparr>"
  by (simp add: ConsultPage_def useAuth_def AuthProvider_value_def guard_effect_def)

section \<open>Session Context: login\<close>

text \<open>
  C1 (as amended). When the response to \<open>login\<close> is ok and its body is an object
  whose \<open>access_token\<close> is a non-empty string \<open>t\<close>, the promise resolves, and
  afterwards \<open>isAuthenticated\<close> is true, the state holds \<open>t\<close>, the storage slot
  \<open>token\<close> holds \<open>t\<close>, and exactly one call \<open>router.push("/dashboard")\<close> has been
  added to the calls made before.
\<close>

theorem login_success:
  assumes "fetch (login_request e email password) = Inr res"
    and "res_ok res"
    and "res_json res = Some (JObj ps)"
    and "map_of ps ''access_token'' = Some (JStr t)"
    and "t \<noteq> []"
  shows "\<exists>s'. login fetch e email password s = (Inr (), s')
           \<and> isAuthenticated (AuthProvider_value s')
           \<and> token s' = JStr t
           \<and> localStorage s' ''token'' = Some t
           \<and> router_pushes s' = router_pushes s @ [''/dashboard'']"
  using assms
  by (simp add: login_def response_json_def store_token_def AuthProvider_value_def)

theorem login_success_witness:
  "res_ok (json_response True (JObj [(''access_token'', JStr ''tok123'')]))
   \<and> (\<exists>s'. login (stub_fetch (json_response True (JObj [(''access_token'', JStr ''tok123'')])))
              \<lparr>NEXT_PUBLIC_API_BASE_URL = None, NEXT_PUBLIC_API_URL = Some ''http://api.test''\<rparr>
              ''a@b.com'' ''secret'' (initial_state Map.empty) = (Inr (), s')
          \<and> isAuthenticated (AuthProvider_value s')
          \<and> token s' = JStr ''tok123''
          \<and> localStorage s' ''token'' = Some ''tok123''
          \<and> router_pushes s' = [''/dashboard''])"
  using login_success
    [of "stub_fetch (json_response True (JObj [(''access_token'', JStr ''tok123'')]))"
        "\<lparr>NEXT_PUBLIC_API_BASE_URL = None, NEXT_PUBLIC_API_URL = Some ''http://api.test''\<rparr>"
        "''a@b.com''" "''secret''"
        "json_response True (JObj [(''access_token'', JStr ''tok123'')])"
        "[(''access_token'', JStr ''tok123'')]" "''tok123''" "initial_state Map.empty"]
  by (simp add: stub_fetch_def json_response_def initial_state_def)

text \<open>
  C1 as stated fails for the empty token: the login resolves, stores the empty
  string and navigates, and \<open>isAuthenticated\<close> is false.
\<close>

theorem login_empty_token_counterexample:
  "login (stub_fetch (json_response True (JObj [(''access_token'', JStr '''')])))
         \<lparr>NEXT_PUBLIC_API_BASE_URL = None, NEXT_PUBLIC_API_URL = Some ''http://api.test''\<rparr>
         ''a@b.com'' ''secret'' (initial_state Map.empty)
     = (Inr (), \<lparr>token = JStr '''', localStorage = [''token'' \<mapsto> ''''],
                 router_pushes = [''/dashboard'']\<rparr>)
   \<and> \<not> isAuthenticated (AuthProvider_value
          \<lparr>token = JStr '''', localStorage = [''token'' \<mapsto> ''''],
           router_pushes = [''/dashboard'']\<rparr>)"
  by (simp add: login_def stub_fetch_def json_response_def response_json_def store_token_def
      AuthProvider_value_def initial_state_def)

text \<open>
  C2 (as amended). When the response to \<open>login\<close> is not ok, the promise rejects and
  the state, the storage and the navigation log are what they were. If the body
  is a JSON object, the message of the error is its \<open>detail\<close> when that is a
  non-empty string, and \<open>Login failed\<close> when the object has no \<open>detail\<close> or an empty
  one.
\<close>

theorem login_failure_leaves_state:
  assumes "fetch (login_request e email password) = Inr res"
    and "\<not> res_ok res"
  shows "snd (login fetch e email password s) = s
     \<and> fst (login fetch e email password s) = Inl (login_failure res)
     \<and> (\<forall>ps. res_json res = Some (JObj ps) \<longrightarrow>
           (\<forall>d. map_of ps ''detail'' = Some (JStr d) \<and> d \<noteq> [] \<longrightarrow>
                 login_failure res = Error d)
         \<and> (map_of ps ''detail'' = None \<or> map_of ps ''detail'' = Some (JStr []) \<longrightarrow>
                 login_failure res = Error ''Login failed''))"
  using assms
  by (auto simp: login_def login_failure_def response_json_def)

theorem login_failure_leaves_state_witness:
  "\<not> res_ok (json_response False (JObj [(''detail'', JStr ''Invalid credentials'')]))
   \<and> login (stub_fetch (json_response False (JObj [(''detail'', JStr ''Invalid credentials'')])))
        \<lparr>NEXT_PUBLIC_API_BASE_URL = None, NEXT_PUBLIC_API_URL = Some ''http://api.test''\<rparr>
        ''a@b.com'' ''secret'' (initial_state Map.empty)
      = (Inl (Error ''Invalid credentials''), initial_state Map.empty)
   \<and> \<not> isAuthenticated (AuthProvider_value (initial_state Map.empty))"
  using login_failure_leaves_state
    [of "stub_fetch (json_response False (JObj [(''detail'', JStr ''Invalid credentials'')]))"
        "\<lparr>NEXT_PUBLIC_API_BASE_URL = None, NEXT_PUBLIC_API_URL = Some ''http://api.test''\<rparr>"
        "''a@b.com''" "''secret''"
        "json_response False (JObj [(''detail'', JStr ''Invalid credentials'')])"
        "initial_state Map.empty"]
  by (simp add: stub_fetch_def json_response_def prod_eq_iff AuthProvider_value_def
      initial_state_def)

text \<open>
  C2 as stated fails for a body that is not JSON: the rejection is the parse error
  of \<open>res.json()\<close>, not an error with the fallback message. It also fails for an
  empty \<open>detail\<close>: the message is the fallback, not the field.
\<close>

theorem login_failure_message_counterexample:
  "fst (login (stub_fetch \<lparr>res_ok = False, res_text = ''<html>Bad Gateway</html>'',
                           res_json = None\<rparr>)
         \<lparr>NEXT_PUBLIC_API_BASE_URL = None, NEXT_PUBLIC_API_URL = Some ''http://api.test''\<rparr>
         ''a@b.com'' ''secret'' (initial_state Map.empty)) = Inl SyntaxError
   \<and> fst (login (stub_fetch (json_response False (JObj [(''detail'', JStr '''')])))
         \<lparr>NEXT_PUBLIC_API_BASE_URL = None, NEXT_PUBLIC_API_URL = Some ''http://api.test''\<rparr>
         ''a@b.com'' ''secret'' (initial_state Map.empty)) = Inl (Error ''Login failed'')"
  by (simp add: login_def stub_fetch_def json_response_def login_failure_def response_json_def)

text \<open>
  C3. The request of \<open>login\<close> for \<open>a@b.com\<close> and \<open>p\<close>: JSON, with the fields
  \<open>email\<close> and \<open>password\<close>, sent to \<open>/login\<close> under \<open>NEXT_PUBLIC_API_URL\<close>; not the
  form-encoded \<open>username\<close> and \<open>password\<close> that the login page and api.ts send.
\<close>

theorem login_request_is_json:
  "login_request \<lparr>NEXT_PUBLIC_API_BASE_URL = None, NEXT_PUBLIC_API_URL = Some ''http://api.test''\<rparr>
       ''a@b.com'' ''p''
     = \<lparr>req_url = ''http://api.test/login'', req_method = ''POST'',
        req_headers = [(''Content-Type'', ''application/json'')],
        req_body = Some (''{'' @ quoted ''email'' @ '':'' @ quoted ''a@b.com'' @ '',''
                          @ quoted ''password'' @ '':'' @ quoted ''p'' @ ''}'')\<rparr>
   \<and> req_body (login_request
        \<lparr>NEXT_PUBLIC_API_BASE_URL = None, NEXT_PUBLIC_API_URL = Some ''http://api.test''\<rparr>
        ''a@b.com'' ''p'') \<noteq> Some ''username=a%40b.com&password=p''"
  by (simp add: login_request_def template_def login_json_example quoted_def)

section \<open>Transport: post\<close>

text \<open>
  C4. The second \<open>post\<close> of api.ts, given a 401 whose body is
  \<open>{"detail": "Invalid credentials"}\<close>, resolves with that body.
\<close>

theorem post2_returns_error_body:
  "post2 (stub_fetch (json_response False (JObj [(''detail'', JStr ''Invalid credentials'')])))
      \<lparr>NEXT_PUBLIC_API_BASE_URL = None, NEXT_PUBLIC_API_URL = None\<rparr>
      ''/auth/login'' [(''username'', JStr ''a@b.com''), (''password'', JStr ''p'')]
      \<lparr>opt_form = Some True, opt_token = None\<rparr>
     = Inr (JObj [(''detail'', JStr ''Invalid credentials'')])"
  by (simp add: post2_def post_request_def form_on_def login_form_example stub_fetch_def
      json_response_def response_json_def)

text \<open>
  C5. For every representable payload, the request that \<open>post\<close> (either copy)
  hands to \<open>fetch\<close>, once. With \<open>form\<close> set, the Content-Type is
  application/x-www-form-urlencoded and the body is the URLSearchParams
  serialization of the payload: made of unreserved bytes, \<open>+\<close>, \<open>%\<close>, \<open>=\<close> and \<open>&\<close>
  only, and decoding back to the fields of the payload with their values as
  strings; a flat payload always has one. Without \<open>form\<close>, the Content-Type is
  application/json and the body is \<open>JSON.stringify\<close> of the payload: JSON text that
  parses back to the payload. When serializing throws, no request is made. The
  payload \<open>{username: "a@b.com", password: "p"}\<close> is sent as
  \<open>username=a%40b.com&password=p\<close> in the first mode and as
  \<open>{"username":"a@b.com","password":"p"}\<close> in the second.
\<close>

theorem post_encoding:
  assumes "representable (JObj payload)"
  shows
  "(form_on opts \<longrightarrow>
      (\<forall>rq. post_request e path payload opts = Inr rq \<longrightarrow>
         map_of (req_headers rq) ''Content-Type'' = Some ''application/x-www-form-urlencoded''
         \<and> (\<exists>b kvs. req_body rq = Some b \<and> URLSearchParams_toString payload = Inr b
                \<and> list_all form_output_char b
                \<and> string_fields payload = Inr kvs \<and> form_parse b = Some kvs))
      \<and> (flat_payload payload \<longrightarrow> (\<exists>rq. post_request e path payload opts = Inr rq)))
   \<and> (\<not> form_on opts \<longrightarrow>
      (\<exists>rq. post_request e path payload opts = Inr rq
         \<and> map_of (req_headers rq) ''Content-Type'' = Some ''application/json''
         \<and> req_body rq = Some (JSON_stringify payload)
         \<and> JSON_parse (JSON_stringify payload) = Some (json_norm (JObj payload))))
   \<and> (\<forall>rq. post_request e path payload opts = Inr rq \<longrightarrow>
         req_url rq = API_BASE e @ path \<and> req_method rq = ''POST''
         \<and> post fetch e path payload opts
             = (case fetch rq of
                  Inl err \<Rightarrow> Inl err
                | Inr res \<Rightarrow>
                    if \<not> res_ok res then Inl (Error (res_text res)) else response_json res)
         \<and> post2 fetch e path payload opts
             = (case fetch rq of Inl err \<Rightarrow> Inl err | Inr res \<Rightarrow> response_json res))
   \<and> (\<forall>err. post_request e path payload opts = Inl err \<longrightarrow>
         post fetch e path payload opts = Inl err \<and> post2 fetch e path payload opts = Inl err)
   \<and> post_request e path [(''username'', JStr ''a@b.com''), (''password'', JStr ''p'')]
        \<lparr>opt_form = Some True, opt_token = None\<rparr>
      = Inr \<lparr>req_url = API_BASE e @ path, req_method = ''POST'',
             req_headers = [(''Content-Type'', ''application/x-www-form-urlencoded'')],
             req_body = Some ''username=a%40b.com&password=p''\<rparr>
   \<and> post_request e path [(''username'', JStr ''a@b.com''), (''password'', JStr ''p'')]
        \<lparr>opt_form = None, opt_token = None\<rparr>
      = Inr \<lparr>req_url = API_BASE e @ path, req_method = ''POST'',
             req_headers = [(''Content-Type'', ''application/json'')],
             req_body = Some (''{'' @ quoted ''username'' @ '':'' @ quoted ''a@b.com'' @ '',''
                               @ quoted ''password'' @ '':'' @ quoted ''p'' @ ''}'')\<rparr>"
proof (intro conjI impI allI)
  fix rq
  assume f: "form_on opts" and r: "post_request e path payload opts = Inr rq"
  from f r obtain b where b: "URLSearchParams_toString payload = Inr b"
    and rq: "rq = \<lparr>req_url = API_BASE e @ path, req_method = ''POST'',
                   req_headers = post_headers opts, req_body = Some b\<rparr>"
    by (auto simp: post_request_def split: sum.splits)
  show "map_of (req_headers rq) ''Content-Type'' = Some ''application/x-www-form-urlencoded''"
    using f rq by (simp add: post_headers_def)
  have chars: "list_all form_output_char b"
    using URLSearchParams_chars [OF b] by (simp add: list_all_iff)
  from URLSearchParams_parses_back [OF b] obtain kvs
    where "string_fields payload = Inr kvs" and "form_parse b = Some kvs" by blast
  then show "\<exists>b kvs. req_body rq = Some b \<and> URLSearchParams_toString payload = Inr b
                \<and> list_all form_output_char b
                \<and> string_fields payload = Inr kvs \<and> form_parse b = Some kvs"
    using b rq chars by simp
next
  assume "form_on opts" and "flat_payload payload"
  then show "\<exists>rq. post_request e path payload opts = Inr rq"
    using flat_payload_serializes [of payload] by (auto simp: post_request_def)
next
  assume "\<not> form_on opts"
  then show "\<exists>rq. post_request e path payload opts = Inr rq
         \<and> map_of (req_headers rq) ''Content-Type'' = Some ''application/json''
         \<and> req_body rq = Some (JSON_stringify payload)
         \<and> JSON_parse (JSON_stringify payload) = Some (json_norm (JObj payload))"
    by (simp add: post_request_def post_headers_def JSON_parse_stringify del: json_norm.simps)
next
  fix rq
  assume r: "post_request e path payload opts = Inr rq"
  then show "req_url rq = API_BASE e @ path"
    by (auto simp: post_request_def split: if_splits sum.splits)
  from r show "req_method rq = ''POST''"
    by (auto simp: post_request_def split: if_splits sum.splits)
  from r show "post fetch e path payload opts
             = (case fetch rq of
                  Inl err \<Rightarrow> Inl err
                | Inr res \<Rightarrow>
                    if \<not> res_ok res then Inl (Error (res_text res)) else response_json res)"
    by (simp add: post_def)
  from r show "post2 fetch e path payload opts
             = (case fetch rq of Inl err \<Rightarrow> Inl err | Inr res \<Rightarrow> response_json res)"
    by (simp add: post2_def)
next
  fix err
  assume r: "post_request e path payload opts = Inl err"
  then show "post fetch e path payload opts = Inl err" by (simp add: post_def)
  from r show "post2 fetch e path payload opts = Inl err" by (simp add: post2_def)
next
  show "post_request e path [(''username'', JStr ''a@b.com''), (''password'', JStr ''p'')]
        \<lparr>opt_form = Some True, opt_token = None\<rparr>
      = Inr \<lparr>req_url = API_BASE e @ path, req_method = ''POST'',
             req_headers = [(''Content-Type'', ''application/x-www-form-urlencoded'')],
             req_body = Some ''username=a%40b.com&password=p''\<rparr>"
    by (simp add: post_request_def post_headers_def form_on_def login_form_example)
next
  have "JSON_stringify [(''username'', JStr ''a@b.com''), (''password'', JStr ''p'')]
      = ''{'' @ quoted ''username'' @ '':'' @ quoted ''a@b.com'' @ '',''
          @ quoted ''password'' @ '':'' @ quoted ''p'' @ ''}''"
    by (simp add: JSON_stringify_def json_quote_def json_escape_char_def quoted_def)
  then show "post_request e path [(''username'', JStr ''a@b.com''), (''password'', JStr ''p'')]
        \<lparr>opt_form = None, opt_token = None\<rparr>
      = Inr \<lparr>req_url = API_BASE e @ path, req_method = ''POST'',
             req_headers = [(''Content-Type'', ''application/json'')],
             req_body = Some (''{'' @ quoted ''username'' @ '':'' @ quoted ''a@b.com'' @ '',''
                               @ quoted ''password'' @ '':'' @ quoted ''p'' @ ''}'')\<rparr>"
    by (simp add: post_request_def post_headers_def form_on_def)
qed

theorem post_encoding_witness:
  "representable (JObj [(''q'', JStr ''x y&z''), (''n'', JNum 7)])
   \<and> form_on \<lparr>opt_form = Some True, opt_token = Some ''tok123''\<rparr>
   \<and> post_request \<lparr>NEXT_PUBLIC_API_BASE_URL = None, NEXT_PUBLIC_API_URL = None\<rparr>
        ''/search'' [(''q'', JStr ''x y&z''), (''n'', JNum 7)]
        \<lparr>opt_form = Some True, opt_token = Some ''tok123''\<rparr>
      = Inr \<lparr>req_url = ''http://127.0.0.1:8000/search'', req_method = ''POST'',
             req_headers = [(''Content-Type'', ''application/x-www-form-urlencoded''),
                            (''Authorization'', ''Bearer tok123'')],
             req_body = Some ''q=x+y%26z&n=7''\<rparr>
   \<and> form_parse ''q=x+y%26z&n=7'' = Some [(''q'', ''x y&z''), (''n'', ''7'')]
   \<and> representable
        (JObj [(''note'', JStr [CHR ''a'', CHR 0x22, CHR 0x5C, CHR 0x0A, CHR 0x01]),
               (''n'', JNum (- 120)), (''skip'', JUndefined),
               (''xs'', JArr [JBool True, JNull, JUndefined, JObj []])])
   \<and> \<not> form_on \<lparr>opt_form = None, opt_token = None\<rparr>
   \<and> JSON_parse
        (''{'' @ quoted ''note'' @ '':''
         @ [CHR 0x22, CHR ''a'', CHR 0x5C, CHR 0x22, CHR 0x5C, CHR 0x5C, CHR 0x5C, CHR ''n'',
            CHR 0x5C, CHR ''u'', CHR ''0'', CHR ''0'', CHR ''0'', CHR ''1'', CHR 0x22]
         @ '','' @ quoted ''n'' @ '':-120,'' @ quoted ''xs'' @ '':[true,null,null,{}]}'')
      = Some (JObj [(''note'', JStr [CHR ''a'', CHR 0x22, CHR 0x5C, CHR 0x0A, CHR 0x01]),
                    (''n'', JNum (- 120)),
                    (''xs'', JArr [JBool True, JNull, JNull, JObj []])])
   \<and> post (stub_fetch (json_response True (JObj [(''id'', JNum 1)])))
        \<lparr>NEXT_PUBLIC_API_BASE_URL = None, NEXT_PUBLIC_API_URL = None\<rparr> ''/items''
        [(''note'', JStr [CHR ''a'', CHR 0x22, CHR 0x5C, CHR 0x0A, CHR 0x01]),
         (''n'', JNum (- 120)), (''skip'', JUndefined),
         (''xs'', JArr [JBool True, JNull, JUndefined, JObj []])]
        \<lparr>opt_form = None, opt_token = None\<rparr>
      = Inr (JObj [(''id'', JNum 1)])
   \<and> flat_payload [(''username'', JStr ''a@b.com''), (''password'', JStr ''p'')]
   \<and> (\<exists>rq. post_request \<lparr>NEXT_PUBLIC_API_BASE_URL = None, NEXT_PUBLIC_API_URL = None\<rparr>
             ''/auth/login'' [(''username'', JStr ''a@b.com''), (''password'', JStr ''p'')]
             \<lparr>opt_form = Some True, opt_token = Some ''tok123''\<rparr> = Inr rq)
   \<and> post_request \<lparr>NEXT_PUBLIC_API_BASE_URL = None, NEXT_PUBLIC_API_URL = None\<rparr>
        ''/search'' [(''q'', JObj [(''toString'', JNum 1)])]
        \<lparr>opt_form = Some True, opt_token = Some ''tok123''\<rparr> = Inl TypeError
   \<and> post2 (stub_fetch (json_response True (JObj [(''id'', JNum 1)])))
        \<lparr>NEXT_PUBLIC_API_BASE_URL = None, NEXT_PUBLIC_API_URL = None\<rparr>
        ''/search'' [(''q'', JObj [(''toString'', JNum 1)])]
        \<lparr>opt_form = Some True, opt_token = Some ''tok123''\<rparr> = Inl TypeError"
proof -
  let ?e = "\<lparr>NEXT_PUBLIC_API_BASE_URL = None, NEXT_PUBLIC_API_URL = None\<rparr>"
  let ?o1 = "\<lparr>opt_form = Some True, opt_token = Some ''tok123''\<rparr>"
  let ?o2 = "\<lparr>opt_form = None, opt_token = None\<rparr>"
  let ?p1 = "[(''q'', JStr ''x y&z''), (''n'', JNum 7)]"
  let ?p2 = "[(''note'', JStr [CHR ''a'', CHR 0x22, CHR 0x5C, CHR 0x0A, CHR 0x01]),
              (''n'', JNum (- 120)), (''skip'', JUndefined),
              (''xs'', JArr [JBool True, JNull, JUndefined, JObj []])]"
  let ?fetch = "stub_fetch (json_response True (JObj [(''id'', JNum 1)]))"
  have r1: "representable (JObj ?p1)" by simp
  have r2: "representable (JObj ?p2)" by simp
  have f1: "form_on ?o1" by (simp add: form_on_def)
  have f2: "\<not> form_on ?o2" by (simp add: form_on_def)
  have rq1: "post_request ?e ''/search'' ?p1 ?o1
      = Inr \<lparr>req_url = ''http://127.0.0.1:8000/search'', req_method = ''POST'',
             req_headers = [(''Content-Type'', ''application/x-www-form-urlencoded''),
                            (''Authorization'', ''Bearer tok123'')],
             req_body = Some ''q=x+y%26z&n=7''\<rparr>"
    using f1 by (simp add: post_request_def post_headers_def API_BASE_def search_form_example)
  from post_encoding [OF r1, of ?o1 ?e "''/search''" ?fetch] f1 rq1
  obtain kvs where "string_fields ?p1 = Inr kvs" and "form_parse ''q=x+y%26z&n=7'' = Some kvs"
    by (auto simp: search_form_example)
  then have parsed: "form_parse ''q=x+y%26z&n=7'' = Some [(''q'', ''x y&z''), (''n'', ''7'')]"
    by (simp add: search_fields_example)
  from post_encoding [OF r2, of ?o2 ?e "''/items''" ?fetch] f2
  obtain rq where rq: "post_request ?e ''/items'' ?p2 ?o2 = Inr rq"
    and reparse: "JSON_parse (JSON_stringify ?p2) = Some (json_norm (JObj ?p2))"
    and sent: "post ?fetch ?e ''/items'' ?p2 ?o2
        = (case ?fetch rq of
             Inl err \<Rightarrow> Inl err
           | Inr res \<Rightarrow> if \<not> res_ok res then Inl (Error (res_text res)) else response_json res)"
    by blast
  have j: "JSON_parse
        (''{'' @ quoted ''note'' @ '':''
         @ [CHR 0x22, CHR ''a'', CHR 0x5C, CHR 0x22, CHR 0x5C, CHR 0x5C, CHR 0x5C, CHR ''n'',
            CHR 0x5C, CHR ''u'', CHR ''0'', CHR ''0'', CHR ''0'', CHR ''1'', CHR 0x22]
         @ '','' @ quoted ''n'' @ '':-120,'' @ quoted ''xs'' @ '':[true,null,null,{}]}'')
      = Some (JObj [(''note'', JStr [CHR ''a'', CHR 0x22, CHR 0x5C, CHR 0x0A, CHR 0x01]),
                    (''n'', JNum (- 120)),
                    (''xs'', JArr [JBool True, JNull, JNull, JObj []])])"
    using reparse by (simp only: structured_example) simp
  have p: "post ?fetch ?e ''/items'' ?p2 ?o2 = Inr (JObj [(''id'', JNum 1)])"
    using sent by (simp add: stub_fetch_def json_response_def response_json_def)
  let ?p3 = "[(''username'', JStr ''a@b.com''), (''password'', JStr ''p'')]"
  let ?p4 = "[(''q'', JObj [(''toString'', JNum 1)])]"
  have r3: "representable (JObj ?p3)" by simp
  have r4: "representable (JObj ?p4)" by simp
  have fl: "flat_payload ?p3" by (simp add: flat_payload_def)
  have ex: "\<exists>rq. post_request ?e ''/auth/login'' ?p3 ?o1 = Inr rq"
    using post_encoding [OF r3, of ?o1 ?e "''/auth/login''" ?fetch] f1 fl by blast
  have thrown: "post_request ?e ''/search'' ?p4 ?o1 = Inl TypeError"
    using f1 by (simp add: post_request_def URLSearchParams_toString_def form_pair_def)
  have none: "post2 ?fetch ?e ''/search'' ?p4 ?o1 = Inl TypeError"
    using post_encoding [OF r4, of ?o1 ?e "''/search''" ?fetch] thrown by blast
  show ?thesis
    using r1 r2 f1 f2 rq1 parsed j p fl ex thrown none by (intro conjI)
qed

section \<open>Route guard\<close>

text \<open>
  C6. The dashboard page evaluated in a provider that has no token:
  \<open>isAuthenticated\<close> is false, the effect redirects to the login view, and the
  page content is returned all the same.
\<close>

theorem DashboardPage_renders_unauthenticated:
  "\<not> isAuthenticated (AuthProvider_value (initial_state Map.empty))
   \<and> DashboardPage (Some (AuthProvider_value (initial_state Map.empty)))
       = Inr \<lparr>rendered = Some ''Welcome to your Dashboard'', effect_pushes = [''/login'']\<rparr>"
  by (simp add: DashboardPage_def useAuth_def AuthProvider_value_def initial_state_def
      guard_effect_def)

section \<open>Session state\<close>

text \<open>
  C7 (as amended). In every reachable state the flag handed to the consumers is
  the truthiness of the current token: false for \<open>null\<close>, and for a string token
  true exactly when the string is not empty. It is computed from the token at
  every render, so it follows every change of it.
\<close>

theorem isAuthenticated_truthy:
  "reachable s \<Longrightarrow>
     isAuthenticated (AuthProvider_value s) = js_truthy (token s)
   \<and> ctx_token (AuthProvider_value s) = token s
   \<and> (token s = JNull \<longrightarrow> \<not> isAuthenticated (AuthProvider_value s))
   \<and> (\<forall>c. token s = JStr c \<longrightarrow> isAuthenticated (AuthProvider_value s) = (c \<noteq> []))"
  by (auto simp: AuthProvider_value_def)

theorem isAuthenticated_truthy_witness:
  "reachable (mount_effect (initial_state [''token'' \<mapsto> ''tok123'']))
   \<and> token (mount_effect (initial_state [''token'' \<mapsto> ''tok123''])) = JStr ''tok123''
   \<and> isAuthenticated (AuthProvider_value (mount_effect (initial_state [''token'' \<mapsto> ''tok123''])))"
proof -
  have r: "reachable (mount_effect (initial_state [''token'' \<mapsto> ''tok123'']))"
    by (intro reachable.intros)
  have t: "token (mount_effect (initial_state [''token'' \<mapsto> ''tok123''])) = JStr ''tok123''"
    by (simp add: mount_effect_def initial_state_def)
  show ?thesis
    using r t isAuthenticated_truthy [OF r] by simp
qed

text \<open>
  C7 as stated fails in the state a login with an empty \<open>access_token\<close> leaves:
  the credential is the empty string, not \<open>null\<close>, and the flag is false.
\<close>

theorem isAuthenticated_empty_counterexample:
  "reachable (snd (login (stub_fetch (json_response True (JObj [(''access_token'', JStr '''')])))
        \<lparr>NEXT_PUBLIC_API_BASE_URL = None, NEXT_PUBLIC_API_URL = Some ''http://api.test''\<rparr>
        ''a@b.com'' ''secret'' (initial_state Map.empty)))
   \<and> token (snd (login (stub_fetch (json_response True (JObj [(''access_token'', JStr '''')])))
        \<lparr>NEXT_PUBLIC_API_BASE_URL = None, NEXT_PUBLIC_API_URL = Some ''http://api.test''\<rparr>
        ''a@b.com'' ''secret'' (initial_state Map.empty))) = JStr ''''
   \<and> isAuthenticated (AuthProvider_value
        (snd (login (stub_fetch (json_response True (JObj [(''access_token'', JStr '''')])))
          \<lparr>NEXT_PUBLIC_API_BASE_URL = None, NEXT_PUBLIC_API_URL = Some ''http://api.test''\<rparr>
          ''a@b.com'' ''secret'' (initial_state Map.empty))))
     \<noteq> (token (snd (login (stub_fetch (json_response True (JObj [(''access_token'', JStr '''')])))
          \<lparr>NEXT_PUBLIC_API_BASE_URL = None, NEXT_PUBLIC_API_URL = Some ''http://api.test''\<rparr>
          ''a@b.com'' ''secret'' (initial_state Map.empty))) \<noteq> JNull)"
proof -
  have r: "reachable (snd (login (stub_fetch (json_response True (JObj [(''access_token'', JStr '''')])))
        \<lparr>NEXT_PUBLIC_API_BASE_URL = None, NEXT_PUBLIC_API_URL = Some ''http://api.test''\<rparr>
        ''a@b.com'' ''secret'' (initial_state Map.empty)))"
    by (intro reachable.intros)
  have t: "token (snd (login (stub_fetch (json_response True (JObj [(''access_token'', JStr '''')])))
        \<lparr>NEXT_PUBLIC_API_BASE_URL = None, NEXT_PUBLIC_API_URL = Some ''http://api.test''\<rparr>
        ''a@b.com'' ''secret'' (initial_state Map.empty))) = JStr ''''"
    by (simp add: login_def stub_fetch_def json_response_def response_json_def store_token_def)
  show ?thesis
    using r t by (simp add: AuthProvider_value_def)
qed

text \<open>
  C8 (as amended). For every non-empty credential string \<open>c\<close>, storing it (the
  write of \<open>login\<close>) and then reloading (a new provider over the same storage,
  with its mount effect run) gives a state whose token is \<open>c\<close>.
\<close>

theorem restart_keeps_token:
  "c \<noteq> [] \<Longrightarrow>
     \<exists>s'. store_token (JStr c) s = Inr s'
        \<and> localStorage s' ''token'' = Some c
        \<and> token (restart s') = JStr c
        \<and> isAuthenticated (AuthProvider_value (restart s'))"
  by (simp add: store_token_def restart_def mount_effect_def initial_state_def
      AuthProvider_value_def)

theorem restart_keeps_token_witness:
  "''tok123'' \<noteq> []
   \<and> (\<exists>s'. store_token (JStr ''tok123'') (initial_state Map.empty) = Inr s'
          \<and> localStorage s' ''token'' = Some ''tok123''
          \<and> token (restart s') = JStr ''tok123''
          \<and> isAuthenticated (AuthProvider_value (restart s')))"
  using restart_keeps_token [of "''tok123''" "initial_state Map.empty"] by simp

text \<open>
  C8 as stated fails for the empty string: it is stored, and the reload leaves
  the token \<open>null\<close>.
\<close>

theorem restart_empty_counterexample:
  "store_token (JStr '''') (initial_state Map.empty)
     = Inr \<lparr>token = JStr '''', localStorage = [''token'' \<mapsto> ''''],
            router_pushes = [''/dashboard'']\<rparr>
   \<and> token (restart \<lparr>token = JStr '''', localStorage = [''token'' \<mapsto> ''''],
                      router_pushes = [''/dashboard'']\<rparr>) = JNull"
  by (simp add: store_token_def restart_def mount_effect_def initial_state_def)

section \<open>Configuration\<close>

text \<open>
  C9. With the base URL configured as \<open>https://api.example.com\<close> and
  \<open>NEXT_PUBLIC_API_URL\<close> not set: api.ts uses the configured base, \<open>login\<close> sends
  to \<open>undefined/login\<close>, and the admin page sends to the fixed local address.
\<close>

theorem requests_ignore_base_url:
  "API_BASE \<lparr>NEXT_PUBLIC_API_BASE_URL = Some ''https://api.example.com'',
             NEXT_PUBLIC_API_URL = None\<rparr> = ''https://api.example.com''
   \<and> req_url (login_request
        \<lparr>NEXT_PUBLIC_API_BASE_URL = Some ''https://api.example.com'',
         NEXT_PUBLIC_API_URL = None\<rparr> ''a@b.com'' ''p'') = ''undefined/login''
   \<and> AdminPage_effect (JStr ''tok123'')
       = Inr (Some \<lparr>req_url = ''http://127.0.0.1:8000/admin/users/pending'',
                    req_method = ''GET'',
                    req_headers = [(''Authorization'', ''Bearer tok123'')],
                    req_body = None\<rparr>)"
  by (simp add: API_BASE_def login_request_def template_def AdminPage_effect_def)

section \<open>useAuth\<close>

text \<open>
  C10. Outside a provider \<open>useAuth\<close> throws the error with the message
  \<open>useAuth must be used inside AuthProvider\<close>; inside one, where the context is
  the provider's value, it returns that value.
\<close>

theorem useAuth_outside_inside:
  "useAuth None = Inl (Error ''useAuth must be used inside AuthProvider'')
   \<and> useAuth (Some (AuthProvider_value s)) = Inr (AuthProvider_value s)
   \<and> useAuth (Some c) = Inr c"
  by (simp add: useAuth_def)

end
